theory Spec2Isabelle
  imports Complex_Main "HOL-Library.Word"
begin

section \<open>The memo of the join planner (sql/memo/memo.go)\<close>

text \<open>
  The memo is a pointer structure: expression groups point to the first expression of a
  linked list, expressions point to their group, to the next expression and to their
  operand groups. The embedding keeps the pointers. A pointer is an index into one of two
  object heaps kept in the memo state (\<open>groups\<close> for \<open>*ExprGroup\<close>, \<open>rels\<close> for the
  \<open>RelExpr\<close> objects); \<open>nil\<close> is \<open>None\<close>. Allocating an object appends it to its heap,
  so a new pointer is always different from every pointer in use, as in Go.
  Costs are \<open>float64\<close> in the source; they are modelled by the real numbers they
  denote (the planner only adds and compares them; NaN is outside the model).
\<close>

subsection \<open>Data\<close>

type_synonym ptr = nat
type_synonym GroupId = "16 word"
type_synonym JoinType = nat
type_synonym Expression = nat
type_synonym Index = nat

datatype distinctOp = unknownDistinctOp | noDistinctOp | SortedDistinctOp | HashDistinctOp

definition IsHash :: "distinctOp \<Rightarrow> bool" where
  "IsHash d = (d = HashDistinctOp)"

record JoinBase =
  Op :: JoinType
  Filter :: "Expression list"
  Left :: "ptr option"
  Right :: "ptr option"

text \<open>What the planner reads of a \<open>plan.IndexedTableAccess\<close>: its name, its key
  expressions and its null mask.\<close>

record IndexedTableAccess =
  itaName :: string
  itaExpressions :: "Expression list"
  itaNullMask :: "bool list"

record RangeHeap =
  ValueIndex :: "ptr option"
  ValueExpr :: "Expression option"
  MinIndex :: "ptr option"
  MinExpr :: "Expression option"
  ValueCol :: Expression
  MinColRef :: Expression
  MaxColRef :: Expression
  RangeClosedOnLowerBound :: bool
  RangeClosedOnUpperBound :: bool
  Parent :: "ptr option"

text \<open>
  The variants of \<open>RelExpr\<close>. A source carries the name of its table as the catalog
  has it (\<open>r.Table.Name()\<close>). The joins, the sources and \<open>Project\<close>, \<open>Distinct\<close>,
  \<open>Filter\<close> are as memo.og.go declares them, with the fields the memo reads
  (\<open>Max1Row\<close> is a source there). Two variants that memo.go builds have no declaration
  among the sources: \<open>RangeHeapJoin\<close> (a join with a \<open>RangeHeap\<close> descriptor) and
  \<open>IndexScan\<close> (a table, an alias and an index on a \<open>sourceBase\<close>). Modelled from the
  spec: \<open>IndexScan\<close> is a source ("Source: TableScan, IndexScan, Values, ..."), named
  after its table like the other sources.
\<close>

datatype exprBody =
    CrossJoin JoinBase
  | InnerJoin JoinBase
  | LeftJoin JoinBase
  | SemiJoin JoinBase
  | AntiJoin JoinBase
  | LookupJoin JoinBase "ptr option" bool
  | ConcatJoin JoinBase "ptr option list"
  | HashJoin JoinBase "ptr option list" "ptr option list"
  | MergeJoin JoinBase "ptr option" "ptr option" bool
  | FullOuterJoin JoinBase
  | RangeHeapJoin JoinBase RangeHeap
  | TableScan string
  | Values string
  | TableAlias string
  | RecursiveTable string
  | RecursiveCte string
  | SubqueryAlias string
  | Max1Row string
  | TableFunc string
  | EmptyTable string
  | IndexScan IndexedTableAccess string Index
  | Project "ptr option" "Expression list"
  | Distinct "ptr option"
  | Filter_rel "ptr option" "Expression list"

text \<open>\<open>relBase\<close> (fields \<open>g\<close>, \<open>n\<close>, \<open>c\<close>, \<open>cnt\<close>, \<open>d\<close>) together with the variant.\<close>

record RelExpr =
  relG :: "ptr option"
  relN :: "ptr option"
  relC :: real
  relCnt :: real
  relD :: distinctOp
  body :: exprBody

record ExprGroup =
  GId :: GroupId
  First :: "ptr option"
  Best :: "ptr option"
  Cost :: real
  Done :: bool
  HintOk :: bool
  RelPropsDistinct :: distinctOp

record tableProps =
  grpToName :: "GroupId \<rightharpoonup> string"
  nameToGrp :: "string \<rightharpoonup> GroupId"

text \<open>The memo. \<open>hints\<close> is \<open>None\<close> for a nil \<open>*joinHints\<close>; a hint set is represented
  by what the optimizer asks of it, \<open>satisfiedBy\<close>, a predicate on expressions.\<close>

record Memo =
  cnt :: "16 word"
  root :: "ptr option"
  hints :: "(ptr \<Rightarrow> bool) option"
  TableProps :: tableProps
  groups :: "ExprGroup list"
  rels :: "RelExpr list"

datatype 'a result = Panic | Error string | Return 'a

definition deref :: "'a list \<Rightarrow> ptr option \<Rightarrow> 'a option" where
  "deref h p = (case p of None \<Rightarrow> None
                | Some a \<Rightarrow> if a < length h then Some (h ! a) else None)"

subsection \<open>Expressions\<close>

fun JoinPrivate :: "exprBody \<Rightarrow> JoinBase option" where
  "JoinPrivate (CrossJoin b) = Some b"
| "JoinPrivate (InnerJoin b) = Some b"
| "JoinPrivate (LeftJoin b) = Some b"
| "JoinPrivate (SemiJoin b) = Some b"
| "JoinPrivate (AntiJoin b) = Some b"
| "JoinPrivate (LookupJoin b _ _) = Some b"
| "JoinPrivate (ConcatJoin b _) = Some b"
| "JoinPrivate (HashJoin b _ _) = Some b"
| "JoinPrivate (MergeJoin b _ _ _) = Some b"
| "JoinPrivate (FullOuterJoin b) = Some b"
| "JoinPrivate (RangeHeapJoin b _) = Some b"
| "JoinPrivate _ = None"

text \<open>\<open>Children()\<close>: the two operands of a join, the child of a unary expression,
  nothing for a source.\<close>

fun Children :: "exprBody \<Rightarrow> ptr option list" where
  "Children (Project ch _) = [ch]"
| "Children (Distinct ch) = [ch]"
| "Children (Filter_rel ch _) = [ch]"
| "Children e = (case JoinPrivate e of Some b \<Rightarrow> [Left b, Right b] | None \<Rightarrow> [])"

subsection \<open>Table names\<close>

text \<open>\<open>strings.ToLower\<close> on the ASCII letters. Names are taken to be ASCII, where Go's
  function is this byte-wise map (on other strings Go also lowers letters outside
  ASCII).\<close>

definition lowerChar :: "char \<Rightarrow> char" where
  "lowerChar ch = (let k = (of_char ch :: nat)
                   in if 65 \<le> k \<and> k \<le> 90 then char_of (k + 32) else ch)"

definition ToLower :: "string \<Rightarrow> string" where
  "ToLower s = map lowerChar s"

text \<open>\<open>Name()\<close> of a \<open>SourceRel\<close>, \<open>None\<close> for an expression that is not one
  (the type assertion \<open>rel.(SourceRel)\<close> fails).\<close>

fun SourceName :: "exprBody \<Rightarrow> string option" where
  "SourceName (TableScan t) = Some (ToLower t)"
| "SourceName (Values t) = Some (ToLower t)"
| "SourceName (TableAlias t) = Some (ToLower t)"
| "SourceName (RecursiveTable t) = Some (ToLower t)"
| "SourceName (RecursiveCte t) = Some (ToLower t)"
| "SourceName (SubqueryAlias t) = Some (ToLower t)"
| "SourceName (Max1Row t) = Some (ToLower t)"
| "SourceName (TableFunc t) = Some (ToLower t)"
| "SourceName (EmptyTable t) = Some (ToLower t)"
| "SourceName (IndexScan t _ _) = Some (ToLower (itaName t))"
| "SourceName _ = None"

definition isSourceRel :: "exprBody \<Rightarrow> bool" where
  "isSourceRel e = (SourceName e \<noteq> None)"

fun isIndexScan :: "exprBody \<Rightarrow> bool" where
  "isIndexScan (IndexScan _ _ _) = True"
| "isIndexScan _ = False"

definition newTableProps :: tableProps where
  "newTableProps = \<lparr>grpToName = Map.empty, nameToGrp = Map.empty\<rparr>"

definition addTable :: "tableProps \<Rightarrow> string \<Rightarrow> GroupId \<Rightarrow> tableProps" where
  "addTable p nm gid = \<lparr>grpToName = (grpToName p)(gid \<mapsto> nm), nameToGrp = (nameToGrp p)(nm \<mapsto> gid)\<rparr>"

definition GetTable :: "tableProps \<Rightarrow> GroupId \<Rightarrow> string \<times> bool" where
  "GetTable p gid = (case grpToName p gid of Some nm \<Rightarrow> (nm, True) | None \<Rightarrow> ([], False))"

definition GetId :: "tableProps \<Rightarrow> string \<Rightarrow> GroupId \<times> bool" where
  "GetId p nm = (case nameToGrp p (ToLower nm) of Some gid \<Rightarrow> (gid, True) | None \<Rightarrow> (0, False))"

definition getTableId :: "Memo \<Rightarrow> string \<Rightarrow> GroupId \<times> bool" where
  "getTableId m table = GetId (TableProps m) table"

subsection \<open>Creating groups and adding alternatives\<close>

text \<open>\<open>NewMemo\<close> starts with an empty hint set, not a nil one; \<open>noHints\<close> is what
  \<open>satisfiedBy\<close> answers for it.\<close>

definition NewMemo :: "(ptr \<Rightarrow> bool) \<Rightarrow> Memo" where
  "NewMemo noHints = \<lparr>cnt = 0, root = None, hints = Some noHints, TableProps = newTableProps,
                       groups = [], rels = []\<rparr>"

definition allocRel :: "Memo \<Rightarrow> exprBody \<Rightarrow> Memo \<times> ptr" where
  "allocRel m e =
     (m\<lparr>rels := rels m @ [\<lparr>relG = None, relN = None, relC = 0, relCnt = 0,
                                relD = unknownDistinctOp, body = e\<rparr>]\<rparr>,
      length (rels m))"

definition SetGroup :: "Memo \<Rightarrow> ptr \<Rightarrow> ptr option \<Rightarrow> Memo" where
  "SetGroup m r g = m\<lparr>rels := (rels m)[r := (rels m ! r)\<lparr>relG := g\<rparr>]\<rparr>"

definition SetNext :: "Memo \<Rightarrow> ptr \<Rightarrow> ptr option \<Rightarrow> Memo" where
  "SetNext m r nx = m\<lparr>rels := (rels m)[r := (rels m ! r)\<lparr>relN := nx\<rparr>]\<rparr>"

definition SetCost :: "Memo \<Rightarrow> ptr \<Rightarrow> real \<Rightarrow> Memo" where
  "SetCost m r co = m\<lparr>rels := (rels m)[r := (rels m ! r)\<lparr>relC := co\<rparr>]\<rparr>"

definition SetDistinct :: "Memo \<Rightarrow> ptr \<Rightarrow> distinctOp \<Rightarrow> Memo" where
  "SetDistinct m r dd = m\<lparr>rels := (rels m)[r := (rels m ! r)\<lparr>relD := dd\<rparr>]\<rparr>"

text \<open>
  Modelled from the spec: \<open>newExprGroup\<close> (expr_group.go is not among the sources).
  "Each group has exactly one first expression at construction": the new group has the
  given id, the expression as its first, no best expression, cost zero, and is neither
  done nor hint-ok; the expression is told its group.
\<close>

definition newExprGroup :: "Memo \<Rightarrow> GroupId \<Rightarrow> ptr \<Rightarrow> Memo \<times> ptr" where
  "newExprGroup m gid rel =
     (let grp = length (groups m);
          m1 = m\<lparr>groups := groups m @ [\<lparr>GId = gid, First = Some rel, Best = None, Cost = 0,
                        Done = False, HintOk = False, RelPropsDistinct = unknownDistinctOp\<rparr>]\<rparr>
      in (SetGroup m1 rel (Some grp), grp))"

text \<open>
  Modelled from the spec: \<open>ExprGroup.Prepend\<close> (expr_group.go is not among the sources).
  "Expressions added via Prepend become the new head of a group's list; earlier
  alternatives remain reachable", "prepending preserves reachability of the previous
  first via the next link".
\<close>

definition Prepend :: "Memo \<Rightarrow> ptr \<Rightarrow> ptr \<Rightarrow> Memo" where
  "Prepend m grp rel =
     (let first = First (groups m ! grp);
          m1 = m\<lparr>groups := (groups m)[grp := (groups m ! grp)\<lparr>First := Some rel\<rparr>]\<rparr>
      in SetNext m1 rel first)"

text \<open>\<open>NewExprGroup\<close>: the counter is a \<open>uint16\<close> and wraps.\<close>

definition NewExprGroup :: "Memo \<Rightarrow> ptr \<Rightarrow> Memo \<times> ptr" where
  "NewExprGroup m rel =
     (let m1 = m\<lparr>cnt := cnt m + 1\<rparr>;
          gid = cnt m1;
          (m2, grp) = newExprGroup m1 gid rel
      in case SourceName (body (rels m2 ! rel)) of
           Some nm \<Rightarrow> (m2\<lparr>TableProps := addTable (TableProps m2) nm gid\<rparr>, grp)
         | None \<Rightarrow> (m2, grp))"

definition memoizeSourceRel :: "Memo \<Rightarrow> exprBody \<Rightarrow> Memo \<times> ptr" where
  "memoizeSourceRel m e = (let (m1, rel) = allocRel m e in NewExprGroup m1 rel)"

text \<open>The tail shared by the \<open>Memoize...\<close> constructors: a nil target makes a new
  group, otherwise the expression is told its group and prepended to it.\<close>

definition MemoizeLeftJoin ::
  "Memo \<Rightarrow> ptr option \<Rightarrow> ptr option \<Rightarrow> ptr option \<Rightarrow> JoinType \<Rightarrow> Expression list \<Rightarrow> Memo \<times> ptr" where
  "MemoizeLeftJoin m grp left right op flt =
     (let (m1, newJoin) = allocRel m (LeftJoin \<lparr>Op = op, Filter = flt, Left = left, Right = right\<rparr>)
      in case grp of
           None \<Rightarrow> NewExprGroup m1 newJoin
         | Some g \<Rightarrow> (Prepend (SetGroup m1 newJoin (Some g)) g newJoin, g))"

definition MemoizeInnerJoin ::
  "Memo \<Rightarrow> ptr option \<Rightarrow> ptr option \<Rightarrow> ptr option \<Rightarrow> JoinType \<Rightarrow> Expression list \<Rightarrow> Memo \<times> ptr" where
  "MemoizeInnerJoin m grp left right op flt =
     (let (m1, newJoin) = allocRel m (InnerJoin \<lparr>Op = op, Filter = flt, Left = left, Right = right\<rparr>)
      in case grp of
           None \<Rightarrow> NewExprGroup m1 newJoin
         | Some g \<Rightarrow> (Prepend (SetGroup m1 newJoin (Some g)) g newJoin, g))"

text \<open>
  \<open>MemoizeLookupJoin\<close>. Two collaborators are not among the sources and are parameters:
  \<open>plan.JoinType.AsLookup\<close> and \<open>isInjectiveLookup\<close> (which is handed the index, the
  join, the key expressions and the null mask, and may follow the join's pointers into
  the memo). Dereferencing a nil \<open>lookup\<close> panics.
\<close>

fun setInjective :: "exprBody \<Rightarrow> exprBody" where
  "setInjective (LookupJoin b l _) = LookupJoin b l True"
| "setInjective e = e"

fun Injective :: "exprBody \<Rightarrow> bool" where
  "Injective (LookupJoin _ _ flag) = flag"
| "Injective _ = False"

definition MemoizeLookupJoin ::
  "(JoinType \<Rightarrow> JoinType) \<Rightarrow> (Memo \<Rightarrow> Index \<Rightarrow> ptr \<Rightarrow> Expression list \<Rightarrow> bool list \<Rightarrow> bool) \<Rightarrow>
   Memo \<Rightarrow> ptr option \<Rightarrow> ptr option \<Rightarrow> ptr option \<Rightarrow> JoinType \<Rightarrow> Expression list \<Rightarrow> ptr option \<Rightarrow>
   (Memo \<times> ptr) result" where
  "MemoizeLookupJoin AsLookup isInjectiveLookup m grp left right op flt lookup =
     (let (m1, newJoin) = allocRel m
            (LookupJoin \<lparr>Op = AsLookup op, Filter = flt, Left = left, Right = right\<rparr> lookup False)
      in case grp of
           None \<Rightarrow> Return (NewExprGroup m1 newJoin)
         | Some g \<Rightarrow>
             (let m2 = Prepend (SetGroup m1 newJoin (Some g)) g newJoin
              in case deref (rels m2) lookup of
                   None \<Rightarrow> Panic
                 | Some scan \<Rightarrow>
                     (case body scan of
                        IndexScan tbl alias idx \<Rightarrow>
                          if isInjectiveLookup m2 idx newJoin (itaExpressions tbl) (itaNullMask tbl)
                          then Return (m2\<lparr>rels := (rels m2)[newJoin :=
                                 (rels m2 ! newJoin)\<lparr>body := setInjective (body (rels m2 ! newJoin))\<rparr>]\<rparr>, g)
                          else Return (m2, g)
                      | _ \<Rightarrow> Panic)))"

definition MemoizeConcatLookupJoin ::
  "(JoinType \<Rightarrow> JoinType) \<Rightarrow> Memo \<Rightarrow> ptr option \<Rightarrow> ptr option \<Rightarrow> ptr option \<Rightarrow> JoinType \<Rightarrow>
   Expression list \<Rightarrow> ptr option list \<Rightarrow> Memo \<times> ptr" where
  "MemoizeConcatLookupJoin AsLookup m grp left right op flt lookups =
     (let (m1, newJoin) = allocRel m
            (ConcatJoin \<lparr>Op = AsLookup op, Filter = flt, Left = left, Right = right\<rparr> lookups)
      in case grp of
           None \<Rightarrow> NewExprGroup m1 newJoin
         | Some g \<Rightarrow> (Prepend (SetGroup m1 newJoin (Some g)) g newJoin, g))"

text \<open>\<open>MemoizeRangeHeapJoin\<close> writes the new join into the descriptor it is given
  (\<open>Parent\<close>), so a nil descriptor panics.\<close>

definition MemoizeRangeHeapJoin ::
  "Memo \<Rightarrow> ptr option \<Rightarrow> ptr option \<Rightarrow> ptr option \<Rightarrow> JoinType \<Rightarrow> Expression list \<Rightarrow>
   RangeHeap option \<Rightarrow> (Memo \<times> ptr) result" where
  "MemoizeRangeHeapJoin m grp left right op flt rangeHeap =
     (case rangeHeap of
        None \<Rightarrow> Panic
      | Some rh \<Rightarrow>
          (let (m1, newJoin) = allocRel m
                 (RangeHeapJoin \<lparr>Op = op, Filter = flt, Left = left, Right = right\<rparr>
                    (rh\<lparr>Parent := Some (length (rels m))\<rparr>))
           in case grp of
                None \<Rightarrow> Return (NewExprGroup m1 newJoin)
              | Some g \<Rightarrow> Return (Prepend (SetGroup m1 newJoin (Some g)) g newJoin, g)))"

definition MemoizeMergeJoin ::
  "Memo \<Rightarrow> ptr option \<Rightarrow> ptr option \<Rightarrow> ptr option \<Rightarrow> ptr option \<Rightarrow> ptr option \<Rightarrow> JoinType \<Rightarrow>
   Expression list \<Rightarrow> bool \<Rightarrow> Memo \<times> ptr" where
  "MemoizeMergeJoin m grp left right lIdx rIdx op flt swapCmp =
     (let (m1, rel) = allocRel m
            (MergeJoin \<lparr>Op = op, Filter = flt, Left = left, Right = right\<rparr> lIdx rIdx swapCmp)
      in case grp of
           None \<Rightarrow> NewExprGroup m1 rel
         | Some g \<Rightarrow> (Prepend (SetGroup m1 rel (Some g)) g rel, g))"

text \<open>\<open>MemoizeIndexScan\<close> adds an index access path to a source group.\<close>

definition MemoizeIndexScan ::
  "Memo \<Rightarrow> ptr option \<Rightarrow> IndexedTableAccess \<Rightarrow> string \<Rightarrow> Index \<Rightarrow> Memo \<times> ptr" where
  "MemoizeIndexScan m grp ita alias index =
     (let (m1, rel) = allocRel m (IndexScan ita alias index)
      in case grp of
           None \<Rightarrow> NewExprGroup m1 rel
         | Some g \<Rightarrow> (Prepend (SetGroup m1 rel (Some g)) g rel, g))"

text \<open>\<open>MemoizeProject\<close> and \<open>MemoizeFilter\<close>. (\<open>MemoizeMax1Row\<close> of memo.go builds a
  \<open>Max1Row\<close> over a child group, which the declaration in memo.og.go, a source over a
  table, does not allow; it is left out.)\<close>

definition MemoizeProject ::
  "Memo \<Rightarrow> ptr option \<Rightarrow> ptr option \<Rightarrow> Expression list \<Rightarrow> Memo \<times> ptr" where
  "MemoizeProject m grp child projections =
     (let (m1, rel) = allocRel m (Project child projections)
      in case grp of
           None \<Rightarrow> NewExprGroup m1 rel
         | Some g \<Rightarrow> (Prepend (SetGroup m1 rel (Some g)) g rel, g))"

definition MemoizeFilter ::
  "Memo \<Rightarrow> ptr option \<Rightarrow> ptr option \<Rightarrow> Expression list \<Rightarrow> Memo \<times> ptr" where
  "MemoizeFilter m grp child filters =
     (let (m1, rel) = allocRel m (Filter_rel child filters)
      in case grp of
           None \<Rightarrow> NewExprGroup m1 rel
         | Some g \<Rightarrow> (Prepend (SetGroup m1 rel (Some g)) g rel, g))"

subsection \<open>Choosing the best alternative\<close>

text \<open>
  Modelled from the spec: \<open>ExprGroup.updateBest\<close> (expr_group.go is not among the
  sources). "Within each category, minimum cost wins": the candidate becomes the best
  when the group has none or when its cost is lower. The spec does not say which of two
  candidates of equal cost wins; \<open>ties\<close> is whether the later one does.
\<close>

definition ExprGroup_updateBest :: "bool \<Rightarrow> ExprGroup \<Rightarrow> ptr \<Rightarrow> real \<Rightarrow> ExprGroup" where
  "ExprGroup_updateBest ties e n grpCost =
     (if Best e = None \<or> grpCost < Cost e \<or> (ties \<and> grpCost = Cost e)
      then e\<lparr>Best := Some n, Cost := grpCost\<rparr> else e)"

text \<open>\<open>Memo.updateBest\<close>, on the group object.\<close>

definition updateBest_grp ::
  "bool \<Rightarrow> (ptr \<Rightarrow> bool) option \<Rightarrow> ExprGroup \<Rightarrow> ptr \<Rightarrow> real \<Rightarrow> ExprGroup" where
  "updateBest_grp ties hs grp n cost =
     (case hs of
        Some satisfiedBy \<Rightarrow>
          if satisfiedBy n then
            (if \<not> HintOk grp then grp\<lparr>Best := Some n, Cost := cost, HintOk := True\<rparr>
             else ExprGroup_updateBest ties grp n cost)
          else if Best grp = None \<or> \<not> HintOk grp then ExprGroup_updateBest ties grp n cost
          else grp
      | None \<Rightarrow> ExprGroup_updateBest ties grp n cost)"

definition updateBest :: "bool \<Rightarrow> Memo \<Rightarrow> ptr \<Rightarrow> ptr \<Rightarrow> real \<Rightarrow> Memo" where
  "updateBest ties m grp n cost =
     m\<lparr>groups := (groups m)[grp := updateBest_grp ties (hints m) (groups m ! grp) n cost]\<rparr>"

subsection \<open>Optimizing a group\<close>

text \<open>
  The collaborators of \<open>optimizeMemoGroup\<close> that are not among the sources are fields of
  a \<open>planner\<close>: the \<open>Coster\<close> (an interface; it returns a cost or an error),
  \<open>sortedInputs\<close>, the row count \<open>statsForRel(&Distinct{Child: grp}).RowCount()\<close>,
  \<open>ExprGroup.fixConflicts\<close>, and the tie rule of \<open>ExprGroup.updateBest\<close>.
\<close>

record planner =
  EstimateCost :: "Memo \<Rightarrow> ptr \<Rightarrow> string + real"
  sortedInputs :: "Memo \<Rightarrow> ptr \<Rightarrow> bool"
  distinctRowCount :: "Memo \<Rightarrow> ptr \<Rightarrow> real"
  fixConflicts :: "Memo \<Rightarrow> ptr \<Rightarrow> Memo"
  tiesReplace :: bool

text \<open>The loops follow \<open>next\<close> pointers and recurse into operand groups, and nothing
  in the types keeps either from going round in a circle: every call takes fuel, and
  \<open>None\<close> is "did not return".\<close>

text \<open>The scan of a source group for its first \<open>IndexScan\<close>
  (\<open>for ; n != nil; n = n.Next()\<close>); \<open>Some None\<close> is "none found".\<close>

fun firstIndexScan :: "nat \<Rightarrow> RelExpr list \<Rightarrow> ptr option \<Rightarrow> ptr option option" where
  "firstIndexScan 0 h n = None"
| "firstIndexScan (Suc k) h None = Some None"
| "firstIndexScan (Suc k) h (Some a) =
     (if isIndexScan (body (h ! a)) then Some (Some a) else firstIndexScan k h (relN (h ! a)))"

definition setGroup :: "Memo \<Rightarrow> ptr \<Rightarrow> ExprGroup \<Rightarrow> Memo" where
  "setGroup m g grp = m\<lparr>groups := (groups m)[g := grp]\<rparr>"

text \<open>The body of the loop over the alternatives after the operand groups are
  optimized and the coster has answered: the distinct operator, the cost of the
  expression, the cost of the plan, \<open>updateBest\<close>.\<close>

definition costAlternative :: "planner \<Rightarrow> Memo \<Rightarrow> ptr \<Rightarrow> ptr \<Rightarrow> real \<Rightarrow> real \<Rightarrow> Memo" where
  "costAlternative P m g n cost relCost =
     (let (m1, relCost1) =
            (if IsHash (RelPropsDistinct (groups m ! g)) then
               (if sortedInputs P m n then (SetDistinct m n SortedDistinctOp, relCost + 0)
                else (let m' = SetDistinct m n HashDistinctOp
                      in (m', relCost + distinctRowCount P m' g)))
             else (SetDistinct m n noDistinctOp, relCost));
          m2 = SetCost m1 n relCost1
      in updateBest (tiesReplace P) m2 g n (cost + relCost1))"

fun optimizeMemoGroup :: "nat \<Rightarrow> planner \<Rightarrow> Memo \<Rightarrow> ptr option \<Rightarrow> Memo result option"
and optimizeAlts :: "nat \<Rightarrow> planner \<Rightarrow> Memo \<Rightarrow> ptr \<Rightarrow> ptr option \<Rightarrow> Memo result option"
and optimizeChildren ::
  "nat \<Rightarrow> planner \<Rightarrow> Memo \<Rightarrow> ptr option list \<Rightarrow> real \<Rightarrow> (Memo \<times> real) result option"
where
  "optimizeMemoGroup 0 P m gp = None"
| "optimizeMemoGroup (Suc k) P m gp =
     (case deref (groups m) gp of
        None \<Rightarrow> Some Panic
      | Some grp \<Rightarrow>
          (let g = the gp in
           if Done grp then Some (Return m)
           else if (case deref (rels m) (First grp) of
                      Some r \<Rightarrow> isSourceRel (body r) | None \<Rightarrow> False)
           then
             (let m1 = setGroup m g (grp\<lparr>Done := True, HintOk := True, Best := First grp\<rparr>)
              in case firstIndexScan k (rels m1) (First grp) of
                   None \<Rightarrow> None
                 | Some found \<Rightarrow>
                     (let m2 = (case found of
                                  Some a \<Rightarrow> setGroup m1 g ((groups m1 ! g)\<lparr>Best := Some a\<rparr>)
                                | None \<Rightarrow> m1)
                      in Some (Return (SetDistinct m2 (the (Best (groups m2 ! g))) noDistinctOp))))
           else
             (case optimizeAlts k P m g (First grp) of
                Some (Return m1) \<Rightarrow>
                  (let m2 = fixConflicts P m1 g
                   in Some (Return (setGroup m2 g ((groups m2 ! g)\<lparr>Done := True\<rparr>))))
              | other \<Rightarrow> other)))"
| "optimizeAlts 0 P m g n = None"
| "optimizeAlts (Suc k) P m g None = Some (Return m)"
| "optimizeAlts (Suc k) P m g (Some n) =
     (case deref (rels m) (Some n) of
        None \<Rightarrow> Some Panic
      | Some r \<Rightarrow>
          (case optimizeChildren k P m (Children (body r)) 0 of
             None \<Rightarrow> None
           | Some Panic \<Rightarrow> Some Panic
           | Some (Error e) \<Rightarrow> Some (Error e)
           | Some (Return (m1, cost)) \<Rightarrow>
               (case EstimateCost P m1 n of
                  Inl e \<Rightarrow> Some (Error e)
                | Inr relCost \<Rightarrow>
                    (let m2 = costAlternative P m1 g n cost relCost
                     in optimizeAlts k P m2 g (relN (rels m2 ! n))))))"
| "optimizeChildren 0 P m cs cost = None"
| "optimizeChildren (Suc k) P m [] cost = Some (Return (m, cost))"
| "optimizeChildren (Suc k) P m (c # cs) cost =
     (case optimizeMemoGroup k P m c of
        None \<Rightarrow> None
      | Some Panic \<Rightarrow> Some Panic
      | Some (Error e) \<Rightarrow> Some (Error e)
      | Some (Return m1) \<Rightarrow> optimizeChildren k P m1 cs (cost + Cost (groups m1 ! the c)))"

definition OptimizeRoot :: "nat \<Rightarrow> planner \<Rightarrow> Memo \<Rightarrow> Memo result option" where
  "OptimizeRoot k P m = optimizeMemoGroup k P m (root m)"

subsection \<open>Building the plan\<close>

text \<open>\<open>ExecBuilder.buildRel\<close> is not among the sources and is a parameter: from an
  expression and the plans of its operands it makes a plan or returns an error.\<close>

fun buildBestJoinPlan ::
  "nat \<Rightarrow> (Memo \<Rightarrow> ptr \<Rightarrow> 'n list \<Rightarrow> string + 'n) \<Rightarrow> Memo \<Rightarrow> ptr option \<Rightarrow> 'n result option"
and buildChildren ::
  "nat \<Rightarrow> (Memo \<Rightarrow> ptr \<Rightarrow> 'n list \<Rightarrow> string + 'n) \<Rightarrow> Memo \<Rightarrow> ptr option list \<Rightarrow> 'n list \<Rightarrow>
   'n list result option"
where
  "buildBestJoinPlan 0 buildRel m gp = None"
| "buildBestJoinPlan (Suc k) buildRel m gp =
     (case deref (groups m) gp of
        None \<Rightarrow> Some Panic
      | Some grp \<Rightarrow>
          if \<not> Done grp then Some (Error ''expected expression group plans to be fixed'')
          else
            (case deref (rels m) (Best grp) of
               None \<Rightarrow> Some Panic
             | Some n \<Rightarrow>
                 (case buildChildren k buildRel m (Children (body n)) [] of
                    None \<Rightarrow> None
                  | Some Panic \<Rightarrow> Some Panic
                  | Some (Error e) \<Rightarrow> Some (Error e)
                  | Some (Return children) \<Rightarrow>
                      (case buildRel m (the (Best grp)) children of
                         Inl e \<Rightarrow> Some (Error e)
                       | Inr node \<Rightarrow> Some (Return node)))))"
| "buildChildren 0 buildRel m gs acc = None"
| "buildChildren (Suc k) buildRel m [] acc = Some (Return acc)"
| "buildChildren (Suc k) buildRel m (g # gs) acc =
     (case buildBestJoinPlan k buildRel m g of
        None \<Rightarrow> None
      | Some Panic \<Rightarrow> Some Panic
      | Some (Error e) \<Rightarrow> Some (Error e)
      | Some (Return node) \<Rightarrow> buildChildren k buildRel m gs (acc @ [node]))"

definition BestRootPlan ::
  "nat \<Rightarrow> (Memo \<Rightarrow> ptr \<Rightarrow> 'n list \<Rightarrow> string + 'n) \<Rightarrow> Memo \<Rightarrow> 'n result option" where
  "BestRootPlan k buildRel m = buildBestJoinPlan k buildRel m (root m)"

section \<open>The properties, in the words of the specification\<close>

subsection \<open>Names that differ only in the case of ASCII letters\<close>



subsection \<open>Calls of the constructors, one after the other\<close>

text \<open>A call of one of the constructors of the memo, with its arguments. (The two
  collaborators of \<open>MemoizeLookupJoin\<close> that are parameters are given to every call.)\<close>

datatype memoCall =
    CallSource exprBody
  | CallLeftJoin "ptr option" "ptr option" "ptr option" JoinType "Expression list"
  | CallInnerJoin "ptr option" "ptr option" "ptr option" JoinType "Expression list"
  | CallLookupJoin "ptr option" "ptr option" "ptr option" JoinType "Expression list" "ptr option"
  | CallConcatLookupJoin "ptr option" "ptr option" "ptr option" JoinType "Expression list"
      "ptr option list"
  | CallRangeHeapJoin "ptr option" "ptr option" "ptr option" JoinType "Expression list"
      "RangeHeap option"
  | CallMergeJoin "ptr option" "ptr option" "ptr option" "ptr option" "ptr option" JoinType
      "Expression list" bool
  | CallProject "ptr option" "ptr option" "Expression list"
  | CallIndexScan "ptr option" IndexedTableAccess string Index
  | CallFilter "ptr option" "ptr option" "Expression list"

text \<open>\<open>applyCall\<close> makes the call on a memo and keeps the memo it leaves, not the group
  it returns; a call that panics leaves none.\<close>

fun applyCall ::
  "(JoinType \<Rightarrow> JoinType) \<Rightarrow> (Memo \<Rightarrow> Index \<Rightarrow> ptr \<Rightarrow> Expression list \<Rightarrow> bool list \<Rightarrow> bool) \<Rightarrow>
   memoCall \<Rightarrow> Memo \<Rightarrow> Memo result" where
  "applyCall al isInj (CallSource e) m = Return (fst (memoizeSourceRel m e))"
| "applyCall al isInj (CallLeftJoin grp l r op flt) m = Return (fst (MemoizeLeftJoin m grp l r op flt))"
| "applyCall al isInj (CallInnerJoin grp l r op flt) m = Return (fst (MemoizeInnerJoin m grp l r op flt))"
| "applyCall al isInj (CallLookupJoin grp l r op flt lookup) m =
     (case MemoizeLookupJoin al isInj m grp l r op flt lookup of
        Return res \<Rightarrow> Return (fst res) | Panic \<Rightarrow> Panic | Error e \<Rightarrow> Error e)"
| "applyCall al isInj (CallConcatLookupJoin grp l r op flt lookups) m =
     Return (fst (MemoizeConcatLookupJoin al m grp l r op flt lookups))"
| "applyCall al isInj (CallRangeHeapJoin grp l r op flt rh) m =
     (case MemoizeRangeHeapJoin m grp l r op flt rh of
        Return res \<Rightarrow> Return (fst res) | Panic \<Rightarrow> Panic | Error e \<Rightarrow> Error e)"
| "applyCall al isInj (CallMergeJoin grp l r li ri op flt sw) m =
     Return (fst (MemoizeMergeJoin m grp l r li ri op flt sw))"
| "applyCall al isInj (CallProject grp ch ps) m = Return (fst (MemoizeProject m grp ch ps))"
| "applyCall al isInj (CallIndexScan grp ita alias idx) m = Return (fst (MemoizeIndexScan m grp ita alias idx))"
| "applyCall al isInj (CallFilter grp ch fs) m = Return (fst (MemoizeFilter m grp ch fs))"

text \<open>A list of calls, made in order; the first panic ends it.\<close>

fun applyCalls ::
  "(JoinType \<Rightarrow> JoinType) \<Rightarrow> (Memo \<Rightarrow> Index \<Rightarrow> ptr \<Rightarrow> Expression list \<Rightarrow> bool list \<Rightarrow> bool) \<Rightarrow>
   memoCall list \<Rightarrow> Memo \<Rightarrow> Memo result" where
  "applyCalls al isInj [] m = Return m"
| "applyCalls al isInj (c # cs) m =
     (case applyCall al isInj c m of
        Return m1 \<Rightarrow> applyCalls al isInj cs m1 | Panic \<Rightarrow> Panic | Error e \<Rightarrow> Error e)"

text \<open>"Memoize-source(rel) registers a source": the name under which a call registers
  one. \<open>memoizeSourceRel\<close> is given a source; \<open>MemoizeIndexScan\<close> makes one, and with a nil
  target it makes a group for it; no other constructor makes a source.\<close>

fun registers :: "memoCall \<Rightarrow> string option" where
  "registers (CallSource e) = SourceName e"
| "registers (CallIndexScan None ita alias idx) = SourceName (IndexScan ita alias idx)"
| "registers _ = None"

text \<open>What every call leaves as it was: the groups that existed keep their ids, and the
  expressions that existed are unchanged.\<close>

definition extends :: "Memo \<Rightarrow> Memo \<Rightarrow> bool" where
  "extends m m' =
     (length (groups m) \<le> length (groups m') \<and> length (rels m) \<le> length (rels m')
      \<and> (\<forall>g < length (groups m). GId (groups m' ! g) = GId (groups m ! g))
      \<and> (\<forall>a < length (rels m). rels m' ! a = rels m ! a))"

text \<open>And what it does to the names: an entry for the name it registers, with the next
  group id, or nothing.\<close>

definition callEffect :: "Memo \<Rightarrow> string option \<Rightarrow> Memo \<Rightarrow> bool" where
  "callEffect m reg m' =
     (TableProps m' = (case reg of Some nm \<Rightarrow> addTable (TableProps m) nm (cnt m + 1)
                       | None \<Rightarrow> TableProps m)
      \<and> extends m m')"

subsection \<open>Adding a join alternative\<close>

text \<open>What the specification says of a join prepended to group \<open>g\<close>: the new
  expression is the head of the list of \<open>g\<close>, the previous head is its \<open>next\<close>, no
  expression that existed is changed (so the earlier alternatives stay reachable), and
  no other group is changed; of \<open>g\<close> itself, best, cost and done stay.\<close>

definition prependedTo :: "Memo \<Rightarrow> ptr \<Rightarrow> JoinBase \<Rightarrow> Memo \<times> ptr \<Rightarrow> bool" where
  "prependedTo m g join res =
     (case res of (m', g') \<Rightarrow>
        (let new = length (rels m) in
           g' = g
         \<and> First (groups m' ! g) = Some new
         \<and> JoinPrivate (body (rels m' ! new)) = Some join
         \<and> relG (rels m' ! new) = Some g
         \<and> relN (rels m' ! new) = First (groups m ! g)
         \<and> (\<forall>a < length (rels m). rels m' ! a = rels m ! a)
         \<and> length (groups m') = length (groups m)
         \<and> (\<forall>h. h \<noteq> g \<longrightarrow> groups m' ! h = groups m ! h)
         \<and> Best (groups m' ! g) = Best (groups m ! g)
         \<and> Cost (groups m' ! g) = Cost (groups m ! g)
         \<and> Done (groups m' ! g) = Done (groups m ! g)))"

text \<open>And of a join memoized with a nil target: the group returned is new, the join is
  its first and only expression, and every group and expression that existed is as it
  was.\<close>

definition inNewGroup :: "Memo \<Rightarrow> JoinBase \<Rightarrow> Memo \<times> ptr \<Rightarrow> bool" where
  "inNewGroup m join res =
     (case res of (m', g') \<Rightarrow>
        (let new = length (rels m) in
           g' = length (groups m)
         \<and> length (groups m') = Suc (length (groups m))
         \<and> First (groups m' ! g') = Some new
         \<and> JoinPrivate (body (rels m' ! new)) = Some join
         \<and> relG (rels m' ! new) = Some g'
         \<and> relN (rels m' ! new) = None
         \<and> (\<forall>a < length (rels m). rels m' ! a = rels m ! a)
         \<and> (\<forall>h < length (groups m). groups m' ! h = groups m ! h)))"

text \<open>The \<open>lookup\<close> argument of \<open>MemoizeLookupJoin\<close> points to an \<open>IndexScan\<close>.\<close>

definition lookupValid :: "Memo \<Rightarrow> ptr option \<Rightarrow> bool" where
  "lookupValid m lookup =
     (case deref (rels m) lookup of Some scan \<Rightarrow> isIndexScan (body scan) | None \<Rightarrow> False)"

subsection \<open>The alternatives of a group\<close>

text \<open>The list of a group, read off the \<open>next\<close> pointers: \<open>Some xs\<close> when the list
  ends in nil within \<open>k\<close> steps and every pointer on it is that of an expression.\<close>

fun alternatives :: "nat \<Rightarrow> RelExpr list \<Rightarrow> ptr option \<Rightarrow> ptr list option" where
  "alternatives 0 h n = None"
| "alternatives (Suc k) h None = Some []"
| "alternatives (Suc k) h (Some a) =
     (if a < length h then map_option (Cons a) (alternatives k h (relN (h ! a))) else None)"

text \<open>"The first IndexScan alternative found in the group's linked list, or the
  group's first expression when no IndexScan alternative exists."\<close>

definition firstIndexScanOr :: "RelExpr list \<Rightarrow> ptr list \<Rightarrow> ptr \<Rightarrow> ptr" where
  "firstIndexScanOr h xs f =
     (case find (\<lambda>a. isIndexScan (body (h ! a))) xs of Some a \<Rightarrow> a | None \<Rightarrow> f)"

subsection \<open>The best alternative of a group under hints\<close>

text \<open>The calls \<open>m.updateBest(grp, n, cost)\<close> that the loop of \<open>optimizeMemoGroup\<close> makes
  for the alternatives of a group, one after the other, as they act on the group: each
  candidate is an alternative with the cost the loop has computed for its plan.\<close>

fun updateBest_each :: "bool \<Rightarrow> (ptr \<Rightarrow> bool) option \<Rightarrow> ExprGroup \<Rightarrow> (ptr \<times> real) list \<Rightarrow> ExprGroup" where
  "updateBest_each ties hs grp [] = grp"
| "updateBest_each ties hs grp ((n, cost) # cs) =
     updateBest_each ties hs (updateBest_grp ties hs grp n cost) cs"

text \<open>"The chosen plan satisfies the hints", and among the candidates that satisfy
  them it is one of least cost; the group is marked hint-ok.\<close>

definition bestAmongSatisfying :: "(ptr \<Rightarrow> bool) \<Rightarrow> ExprGroup \<Rightarrow> (ptr \<times> real) set \<Rightarrow> bool" where
  "bestAmongSatisfying sat grp S =
     (HintOk grp
      \<and> (\<exists>b. Best grp = Some b \<and> sat b \<and> (b, Cost grp) \<in> S)
      \<and> (\<forall>(n, c) \<in> S. sat n \<longrightarrow> Cost grp \<le> c))"

text \<open>"The globally lowest-cost plan is chosen", and "the group records that it was
  not hint-satisfied".\<close>

definition bestOverall :: "ExprGroup \<Rightarrow> (ptr \<times> real) set \<Rightarrow> bool" where
  "bestOverall grp S =
     (\<not> HintOk grp
      \<and> (\<exists>b. Best grp = Some b \<and> (b, Cost grp) \<in> S)
      \<and> (\<forall>(n, c) \<in> S. Cost grp \<le> c))"

subsection \<open>The shape of a memo\<close>

text \<open>Optimizing writes best, cost, done and hint-ok of groups and cost and distinct
  operator of expressions; the lists of alternatives, the operands and the hints stay.\<close>

definition sameShape :: "Memo \<Rightarrow> Memo \<Rightarrow> bool" where
  "sameShape m m' =
     (length (groups m') = length (groups m) \<and> length (rels m') = length (rels m)
      \<and> hints m' = hints m
      \<and> (\<forall>a. relN (rels m' ! a) = relN (rels m ! a) \<and> relG (rels m' ! a) = relG (rels m ! a)
             \<and> body (rels m' ! a) = body (rels m ! a))
      \<and> (\<forall>h. First (groups m' ! h) = First (groups m ! h)
             \<and> RelPropsDistinct (groups m' ! h) = RelPropsDistinct (groups m ! h)))"

text \<open>Every expression on the list of a group has that group as its group: the first
  (\<open>newExprGroup\<close> tells it so) and with an expression its \<open>next\<close> (the constructors set
  \<open>g\<close> before they prepend).\<close>

definition wellGrouped :: "Memo \<Rightarrow> bool" where
  "wellGrouped m =
     ((\<forall>g < length (groups m). \<forall>a. First (groups m ! g) = Some a \<longrightarrow> relG (rels m ! a) = Some g)
      \<and> (\<forall>a < length (rels m). \<forall>b. relN (rels m ! a) = Some b \<longrightarrow>
             relG (rels m ! b) = relG (rels m ! a)))"

text \<open>"Expression groups form a DAG": the operand groups of an expression are of lower
  rank than its group.\<close>

definition ranked :: "(ptr \<Rightarrow> nat) \<Rightarrow> Memo \<Rightarrow> bool" where
  "ranked rank m =
     (\<forall>a < length (rels m). \<forall>g c. relG (rels m ! a) = Some g \<longrightarrow>
         Some c \<in> set (Children (body (rels m ! a))) \<longrightarrow> rank c < rank g)"

text \<open>What is asked of \<open>fixConflicts\<close>, a parameter: "the post-pass reifies the inner
  group's best in terms required by the chosen outer", so it keeps the shape and writes
  only to groups of lower rank than the one it is called on.\<close>

definition fixesBelow :: "(ptr \<Rightarrow> nat) \<Rightarrow> planner \<Rightarrow> bool" where
  "fixesBelow rank P =
     (\<forall>m g. sameShape m (fixConflicts P m g)
         \<and> (\<forall>h. rank g \<le> rank h \<longrightarrow> groups (fixConflicts P m g) ! h = groups m ! h))"

subsection \<open>The tree of best expressions\<close>

text \<open>A group is reachable from another through the operand groups of best
  expressions.\<close>

inductive reachable :: "Memo \<Rightarrow> ptr \<Rightarrow> ptr \<Rightarrow> bool" for m where
  here: "reachable m g g"
| child: "deref (groups m) (Some g) = Some grp \<Longrightarrow> deref (rels m) (Best grp) = Some n \<Longrightarrow>
          Some c \<in> set (Children (body n)) \<Longrightarrow> reachable m c h \<Longrightarrow> reachable m g h"

text \<open>The memo below a group is fit for reification within depth \<open>d\<close>: every group
  pointer is that of a group, and every group that is done has a best expression, whose
  operand groups are fit within \<open>d - 1\<close>. Below a group that is not done nothing is
  asked.\<close>

fun bestTreeWithin :: "nat \<Rightarrow> Memo \<Rightarrow> ptr option \<Rightarrow> bool" where
  "bestTreeWithin 0 m gp = False"
| "bestTreeWithin (Suc d) m gp =
     (case deref (groups m) gp of
        None \<Rightarrow> False
      | Some grp \<Rightarrow>
          Done grp \<longrightarrow>
            (case deref (rels m) (Best grp) of
               None \<Rightarrow> False
             | Some n \<Rightarrow> list_all (bestTreeWithin d m) (Children (body n))))"

text \<open>"Reification performs a depth-first traversal from the root group, building
  concrete executable nodes from each group's best expression": the tree of best
  expressions, defined when every group on it is done, and the plan built from it,
  operands first and from left to right, the first error ending the traversal.\<close>

datatype bestTree = BestTree ptr "bestTree list"

fun bestTreeOf :: "nat \<Rightarrow> Memo \<Rightarrow> ptr option \<Rightarrow> bestTree option" where
  "bestTreeOf 0 m gp = None"
| "bestTreeOf (Suc d) m gp =
     (case deref (groups m) gp of
        None \<Rightarrow> None
      | Some grp \<Rightarrow>
          if \<not> Done grp then None
          else (case deref (rels m) (Best grp) of
                  None \<Rightarrow> None
                | Some n \<Rightarrow> map_option (BestTree (the (Best grp)))
                              (those (map (bestTreeOf d m) (Children (body n))))))"

fun buildTree :: "(Memo \<Rightarrow> ptr \<Rightarrow> 'n list \<Rightarrow> string + 'n) \<Rightarrow> Memo \<Rightarrow> bestTree \<Rightarrow> string + 'n"
and buildTrees :: "(Memo \<Rightarrow> ptr \<Rightarrow> 'n list \<Rightarrow> string + 'n) \<Rightarrow> Memo \<Rightarrow> bestTree list \<Rightarrow> string + 'n list"
where
  "buildTree buildRel m (BestTree n ts) =
     (case buildTrees buildRel m ts of Inl e \<Rightarrow> Inl e | Inr children \<Rightarrow> buildRel m n children)"
| "buildTrees buildRel m [] = Inr []"
| "buildTrees buildRel m (t # ts) =
     (case buildTree buildRel m t of
        Inl e \<Rightarrow> Inl e
      | Inr node \<Rightarrow> (case buildTrees buildRel m ts of Inl e \<Rightarrow> Inl e | Inr nodes \<Rightarrow> Inr (node # nodes)))"

definition notDone :: "Memo \<Rightarrow> ptr \<Rightarrow> bool" where
  "notDone m h = (h < length (groups m) \<and> \<not> Done (groups m ! h))"

definition toResult :: "string + 'a \<Rightarrow> 'a result" where
  "toResult r = (case r of Inl e \<Rightarrow> Error e | Inr x \<Rightarrow> Return x)"

subsection \<open>What optimizing leaves behind\<close>

text \<open>The state of a memo between calls of \<open>optimizeMemoGroup\<close>: every group has a
  first expression; the best expression of a group, when it has one, is an expression
  of that group whose operand groups are done; a group that is done has a best
  expression; and \<open>next\<close> pointers are those of expressions. A memo in which nothing
  has been optimized yet is of this kind when its pointers are.\<close>

definition fitMemo :: "Memo \<Rightarrow> bool" where
  "fitMemo m =
     ((\<forall>g < length (groups m).
          (\<exists>f. First (groups m ! g) = Some f \<and> f < length (rels m))
        \<and> (Done (groups m ! g) \<longrightarrow> Best (groups m ! g) \<noteq> None)
        \<and> (\<forall>b. Best (groups m ! g) = Some b \<longrightarrow>
              b < length (rels m) \<and> relG (rels m ! b) = Some g
            \<and> (\<forall>c \<in> set (Children (body (rels m ! b))).
                 \<exists>c'. c = Some c' \<and> c' < length (groups m) \<and> Done (groups m ! c'))))
      \<and> (\<forall>a < length (rels m). \<forall>b. relN (rels m ! a) = Some b \<longrightarrow> b < length (rels m)))"

text \<open>No group is lost, and a group that was done is done.\<close>

definition keepsDone :: "Memo \<Rightarrow> Memo \<Rightarrow> bool" where
  "keepsDone m m' =
     (length (groups m') = length (groups m)
      \<and> (\<forall>h < length (groups m). Done (groups m ! h) \<longrightarrow> Done (groups m' ! h)))"

text \<open>What is asked of \<open>fixConflicts\<close>, a parameter, besides \<open>fixesBelow\<close>: a best
  expression that it replaces is replaced by an alternative of the same group ("the
  post-pass reifies the inner group's best in terms required by the chosen outer"), so
  it keeps a memo in that state, and it does not reopen a group.\<close>

definition fixesFit :: "planner \<Rightarrow> bool" where
  "fixesFit P =
     (\<forall>m g. fitMemo m \<longrightarrow> fitMemo (fixConflicts P m g) \<and> keepsDone m (fixConflicts P m g))"

subsection \<open>A small memo\<close>

text \<open>Two tables, an index scan that serves as a lookup template, and the inner join
  of the two tables in a group of its own.\<close>

definition exSources :: Memo where
  "exSources = fst (memoizeSourceRel (fst (memoizeSourceRel (NewMemo (\<lambda>_. True)) (TableScan ''xy'')))
                     (TableScan ''UV''))"

definition exScan :: Memo where
  "exScan = fst (allocRel exSources
     (IndexScan \<lparr>itaName = ''uv'', itaExpressions = [1], itaNullMask = [False]\<rparr> ''uv'' 0))"

definition exJoin :: Memo where
  "exJoin = fst (MemoizeInnerJoin exScan None (Some 0) (Some 1) 0 [1])"

text \<open>A planner whose coster answers 1 for every expression, and the small memo with
  an index scan added to the group of table uv: before that group is optimized, and
  after.\<close>

definition exPlanner :: planner where
  "exPlanner = \<lparr>EstimateCost = (\<lambda>m n. Inr 1), sortedInputs = (\<lambda>m n. False),
                 distinctRowCount = (\<lambda>m g. 0), fixConflicts = (\<lambda>m g. m), tiesReplace = True\<rparr>"

definition exIndexed :: Memo where
  "exIndexed = fst (MemoizeIndexScan exSources (Some 1)
                      \<lparr>itaName = ''uv'', itaExpressions = [1], itaNullMask = [False]\<rparr> ''uv'' 0)"

definition exOptimized :: Memo where
  "exOptimized = (case optimizeMemoGroup 3 exPlanner exSources (Some 1) of
                    Some (Return m) \<Rightarrow> m | _ \<Rightarrow> exSources)"

definition exReopened :: Memo where
  "exReopened = fst (MemoizeIndexScan exOptimized (Some 1)
                      \<lparr>itaName = ''uv'', itaExpressions = [1], itaNullMask = [False]\<rparr> ''uv'' 0)"







text \<open>A fresh join group with four candidate plans, a hint that expressions 4 and 6
  satisfy, and a hint that none of them satisfies.\<close>

definition exGroup :: ExprGroup where
  "exGroup = \<lparr>GId = 3, First = Some 5, Best = None, Cost = 0, Done = False, HintOk = False,
               RelPropsDistinct = unknownDistinctOp\<rparr>"

definition exCandidates :: "(ptr \<times> real) list" where
  "exCandidates = [(5, 9), (4, 9), (3, 2), (6, 7)]"

definition exHint :: "ptr \<Rightarrow> bool" where
  "exHint n = (n = 4 \<or> n = 6)"

definition exHintNone :: "ptr \<Rightarrow> bool" where
  "exHintNone n = (n = 7)"

text \<open>The small memo with its join group as root, before and after \<open>OptimizeRoot\<close>, and
  a builder that returns the tree of the expressions it is given.\<close>

definition exRooted :: Memo where
  "exRooted = exJoin\<lparr>root := Some 2\<rparr>"

definition exPlanned :: Memo where
  "exPlanned = (case OptimizeRoot 9 exPlanner exRooted of Some (Return m) \<Rightarrow> m | _ \<Rightarrow> exRooted)"




text \<open>A rank for the small memo: the join group above the two table groups.\<close>

definition exRank :: "ptr \<Rightarrow> nat" where
  "exRank g = (if g = 2 then 1 else 0)"


subsection \<open>The range join of the planning tests\<close>

text \<open>The tables of the test "primary key range join" and the rows it expects of
  \<open>select * from vals join ranges on val between min and max\<close> (in the order of
  \<open>val\<close>, then \<open>min\<close>).\<close>

definition test_vals :: "int list" where
  "test_vals = [0, 1, 2, 3, 4, 5, 6]"

definition test_ranges :: "(int \<times> int) list" where
  "test_ranges = [(0, 2), (1, 3), (2, 4), (3, 5), (4, 6)]"

definition test_between_exp :: "(int \<times> int \<times> int) list" where
  "test_between_exp =
     [(0, 0, 2), (1, 0, 2), (1, 1, 3), (2, 0, 2), (2, 1, 3), (2, 2, 4), (3, 1, 3), (3, 2, 4),
      (3, 3, 5), (4, 2, 4), (4, 3, 5), (4, 4, 6), (5, 3, 5), (5, 4, 6), (6, 4, 6)]"

text \<open>
  Modelled from the spec: the rows of a join of a value against an interval, "val in
  [min, max]", with the two flags of the \<open>RangeHeap\<close> descriptor saying whether a bound
  is closed (the join executor is not among the sources). It is the reference nested
  loop: every value against every range.
\<close>

definition rangeJoin :: "bool \<Rightarrow> bool \<Rightarrow> int list \<Rightarrow> (int \<times> int) list \<Rightarrow> (int \<times> int \<times> int) list" where
  "rangeJoin closedLower closedUpper vs rs =
     concat (map (\<lambda>v. map (\<lambda>(lo, hi). (v, lo, hi))
                         (filter (\<lambda>(lo, hi). (if closedLower then lo \<le> v else lo < v)
                                            \<and> (if closedUpper then v \<le> hi else v < hi)) rs)) vs)"


section \<open>Table names are looked up without regard to case\<close>





text \<open>An update of one element of a list changes no field that the new element
  shares with the old.\<close>

lemma nth_update_field:
  "f (h[b := v] ! a) = f (h ! a)" if "f v = f (h ! b)"
  using that by (cases "a = b"; cases "b < length h") (simp_all add: list_update_beyond)


subsection \<open>What a call of a constructor does to the names\<close>

lemma extends_refl: "extends m m"
  by (simp add: extends_def)

lemma extends_trans: "extends m m1 \<Longrightarrow> extends m1 m2 \<Longrightarrow> extends m m2"
  by (auto simp: extends_def)

text \<open>The two ends of every constructor: a new group for the new expression, which
  registers it when it is a source, or the expression prepended to the target.\<close>

lemma new_group_names:
  assumes "m1 = fst (allocRel m e)"
  shows "TableProps (fst (NewExprGroup m1 (length (rels m))))
           = (case SourceName e of Some nm \<Rightarrow> addTable (TableProps m) nm (cnt m + 1)
              | None \<Rightarrow> TableProps m)"
    and "extends m (fst (NewExprGroup m1 (length (rels m))))"
    and "GId (groups (fst (NewExprGroup m1 (length (rels m)))) ! length (groups m)) = cnt m + 1"
    and "length (groups m) < length (groups (fst (NewExprGroup m1 (length (rels m)))))"
    and "First (groups (fst (NewExprGroup m1 (length (rels m)))) ! length (groups m)) = Some (length (rels m))"
    and "body (rels (fst (NewExprGroup m1 (length (rels m)))) ! length (rels m)) = e"
    and "relG (rels (fst (NewExprGroup m1 (length (rels m)))) ! length (rels m)) = Some (length (groups m))"
    and "length (rels m) < length (rels (fst (NewExprGroup m1 (length (rels m)))))"
  unfolding assms
  by (auto simp: NewExprGroup_def newExprGroup_def SetGroup_def allocRel_def Let_def nth_append
        extends_def split: option.splits)

lemma prepend_names:
  assumes "m1 = fst (allocRel m e)"
  shows "TableProps (Prepend (SetGroup m1 (length (rels m)) (Some g)) g (length (rels m))) = TableProps m"
    and "extends m (Prepend (SetGroup m1 (length (rels m)) (Some g)) g (length (rels m)))"
  unfolding assms
  by (auto simp: Prepend_def SetGroup_def SetNext_def allocRel_def Let_def nth_append
        extends_def nth_update_field)

lemma snd_allocRel: "snd (allocRel m e) = length (rels m)"
  by (simp add: allocRel_def)

lemma tail_effect:
  "callEffect m (case grp of None \<Rightarrow> SourceName e | Some g \<Rightarrow> None)
     (fst (case grp of
             None \<Rightarrow> NewExprGroup (fst (allocRel m e)) (length (rels m))
           | Some g \<Rightarrow> (Prepend (SetGroup (fst (allocRel m e)) (length (rels m)) (Some g)) g
                          (length (rels m)), g)))"
  using new_group_names(1,2) [OF refl, of m e] prepend_names [OF refl, of m e]
  by (cases grp) (simp_all add: callEffect_def)

lemma call_effect:
  assumes "applyCall al isInj c m = Return m'"
  shows "callEffect m (registers c) m'"
proof (cases c)
  case (CallSource e)
  with assms tail_effect [where m = m and grp = None and e = e] show ?thesis
    by (simp add: memoizeSourceRel_def case_prod_beta snd_allocRel)
next
  case (CallLeftJoin grp l r op flt)
  with assms tail_effect [where m = m and grp = grp and e = "LeftJoin \<lparr>Op = op, Filter = flt, Left = l, Right = r\<rparr>"]
  show ?thesis
    by (cases grp) (auto simp add: MemoizeLeftJoin_def case_prod_beta snd_allocRel)
next
  case (CallInnerJoin grp l r op flt)
  with assms tail_effect [where m = m and grp = grp and e = "InnerJoin \<lparr>Op = op, Filter = flt, Left = l, Right = r\<rparr>"]
  show ?thesis
    by (cases grp) (auto simp add: MemoizeInnerJoin_def case_prod_beta snd_allocRel)
next
  case (CallConcatLookupJoin grp l r op flt lks)
  with assms tail_effect [where m = m and grp = grp and e = "ConcatJoin \<lparr>Op = al op, Filter = flt, Left = l, Right = r\<rparr> lks"]
  show ?thesis
    by (cases grp) (auto simp add: MemoizeConcatLookupJoin_def case_prod_beta snd_allocRel)
next
  case (CallMergeJoin grp l r li ri op flt sw)
  with assms tail_effect [where m = m and grp = grp and e = "MergeJoin \<lparr>Op = op, Filter = flt, Left = l, Right = r\<rparr> li ri sw"]
  show ?thesis
    by (cases grp) (auto simp add: MemoizeMergeJoin_def case_prod_beta snd_allocRel)
next
  case (CallProject grp ch ps)
  with assms tail_effect [where m = m and grp = grp and e = "Project ch ps"]
  show ?thesis
    by (cases grp) (auto simp add: MemoizeProject_def case_prod_beta snd_allocRel)
next
  case (CallFilter grp ch fs)
  with assms tail_effect [where m = m and grp = grp and e = "Filter_rel ch fs"]
  show ?thesis
    by (cases grp) (auto simp add: MemoizeFilter_def case_prod_beta snd_allocRel)
next
  case (CallIndexScan grp ita ali idx)
  with assms tail_effect [where m = m and grp = grp and e = "IndexScan ita ali idx"]
  show ?thesis
    by (cases grp) (auto simp add: MemoizeIndexScan_def case_prod_beta snd_allocRel)
next
  case (CallRangeHeapJoin grp l r op flt rh)
  with assms obtain d where d: "rh = Some d"
    by (cases rh) (auto simp: MemoizeRangeHeapJoin_def)
  with CallRangeHeapJoin assms
    tail_effect [where m = m and grp = grp and e = "RangeHeapJoin \<lparr>Op = op, Filter = flt, Left = l, Right = r\<rparr>
                             (d\<lparr>Parent := Some (length (rels m))\<rparr>)"]
  show ?thesis
    by (cases grp) (auto simp add: MemoizeRangeHeapJoin_def case_prod_beta snd_allocRel)
next
  case (CallLookupJoin grp l r op flt lookup)
  let ?e = "LookupJoin \<lparr>Op = al op, Filter = flt, Left = l, Right = r\<rparr> lookup False"
  show ?thesis
  proof (cases grp)
    case None
    with CallLookupJoin assms tail_effect [where m = m and grp = None and e = ?e] show ?thesis
      by (auto simp add: MemoizeLookupJoin_def case_prod_beta snd_allocRel)
  next
    case (Some g)
    let ?m2 = "Prepend (SetGroup (fst (allocRel m ?e)) (length (rels m)) (Some g)) g (length (rels m))"
    from tail_effect [where m = m and grp = "Some g" and e = ?e] have e2: "callEffect m None ?m2" by simp
    from CallLookupJoin assms Some have
      "m' = ?m2 \<or> m' = ?m2\<lparr>rels := (rels ?m2)[length (rels m) :=
               (rels ?m2 ! length (rels m))\<lparr>body := setInjective (body (rels ?m2 ! length (rels m)))\<rparr>]\<rparr>"
      by (auto simp add: MemoizeLookupJoin_def case_prod_beta snd_allocRel Let_def
            split: option.splits exprBody.splits if_splits)
    with e2 CallLookupJoin Some show ?thesis
      by (auto simp: callEffect_def extends_def)
  qed
qed


text \<open>Calls that do not register a name leave its entry as it is.\<close>

lemma calls_keep_name:
  "applyCalls al isInj cs m = Return m' \<Longrightarrow> \<forall>c \<in> set cs. registers c \<noteq> Some nm \<Longrightarrow>
   nameToGrp (TableProps m') nm = nameToGrp (TableProps m) nm \<and> extends m m'"
proof (induction cs arbitrary: m)
  case Nil
  then show ?case by (simp add: extends_refl)
next
  case (Cons c cs)
  from Cons.prems(1) obtain m1 where
    m1: "applyCall al isInj c m = Return m1" "applyCalls al isInj cs m1 = Return m'"
    by (auto split: result.splits)
  from call_effect [OF m1(1)] Cons.prems(2)
  have a: "nameToGrp (TableProps m1) nm = nameToGrp (TableProps m) nm" "extends m m1"
    by (auto simp: callEffect_def addTable_def split: option.splits)
  from Cons.IH [OF m1(2)] Cons.prems(2)
  have "nameToGrp (TableProps m') nm = nameToGrp (TableProps m1) nm" "extends m1 m'" by auto
  with a show ?case by (auto intro: extends_trans)
qed






text \<open>A name under which nothing was registered is not found.\<close>

lemma getTableId_unknown_name:
  assumes "applyCalls al isInj cs (NewMemo h) = Return m"
      and "\<forall>c \<in> set cs. registers c \<noteq> Some (ToLower q)"
  shows "getTableId m q = (0, False)"
  using calls_keep_name [OF assms]
  by (simp add: getTableId_def GetId_def NewMemo_def newTableProps_def)


section \<open>The small memo, evaluated\<close>

lemma lower_xy: "ToLower ''xy'' = ''xy''" "ToLower ''UV'' = ''uv''"
  by code_simp+

lemma exJoin_groups: "groups exJoin =
  [\<lparr>GId = 1, First = Some 0, Best = None, Cost = 0, Done = False,
      HintOk = False, RelPropsDistinct = unknownDistinctOp\<rparr>,
   \<lparr>GId = 2, First = Some 1, Best = None, Cost = 0, Done = False,
      HintOk = False, RelPropsDistinct = unknownDistinctOp\<rparr>,
   \<lparr>GId = 3, First = Some 3, Best = None, Cost = 0, Done = False,
      HintOk = False, RelPropsDistinct = unknownDistinctOp\<rparr>]"
  by (simp add: exJoin_def exScan_def exSources_def memoizeSourceRel_def allocRel_def NewMemo_def NewExprGroup_def newExprGroup_def SetGroup_def
     MemoizeInnerJoin_def Let_def lower_xy addTable_def newTableProps_def)

lemma exJoin_rels: "rels exJoin =
  [\<lparr>relG = Some 0, relN = None, relC = 0, relCnt = 0,
      relD = unknownDistinctOp, body = TableScan ''xy''\<rparr>,
   \<lparr>relG = Some 1, relN = None, relC = 0, relCnt = 0,
      relD = unknownDistinctOp, body = TableScan ''UV''\<rparr>,
   \<lparr>relG = None, relN = None, relC = 0, relCnt = 0,
      relD = unknownDistinctOp,
      body =
        IndexScan
         \<lparr>itaName = ''uv'', itaExpressions = [1], itaNullMask = [False]\<rparr>
         ''uv'' 0\<rparr>,
   \<lparr>relG = Some 2, relN = None, relC = 0, relCnt = 0,
      relD = unknownDistinctOp,
      body =
        InnerJoin \<lparr>Op = 0, Filter = [1], Left = Some 0, Right = Some 1\<rparr>\<rparr>]"
  by (simp add: exJoin_def exScan_def exSources_def memoizeSourceRel_def allocRel_def NewMemo_def NewExprGroup_def newExprGroup_def SetGroup_def
     MemoizeInnerJoin_def Let_def lower_xy addTable_def newTableProps_def)

lemma exSources_groups: "groups exSources =
  [\<lparr>GId = 1, First = Some 0, Best = None, Cost = 0, Done = False,
      HintOk = False, RelPropsDistinct = unknownDistinctOp\<rparr>,
   \<lparr>GId = 2, First = Some 1, Best = None, Cost = 0, Done = False,
      HintOk = False, RelPropsDistinct = unknownDistinctOp\<rparr>]"
  by (simp add: exSources_def memoizeSourceRel_def allocRel_def NewMemo_def NewExprGroup_def
        newExprGroup_def SetGroup_def Let_def lower_xy)

lemma exSources_rels: "rels exSources =
  [\<lparr>relG = Some 0, relN = None, relC = 0, relCnt = 0,
      relD = unknownDistinctOp, body = TableScan ''xy''\<rparr>,
   \<lparr>relG = Some 1, relN = None, relC = 0, relCnt = 0,
      relD = unknownDistinctOp, body = TableScan ''UV''\<rparr>]"
  by (simp add: exSources_def memoizeSourceRel_def allocRel_def NewMemo_def NewExprGroup_def
        newExprGroup_def SetGroup_def Let_def lower_xy)

lemma exIndexed_groups: "groups exIndexed =
  [\<lparr>GId = 1, First = Some 0, Best = None, Cost = 0, Done = False,
      HintOk = False, RelPropsDistinct = unknownDistinctOp\<rparr>,
   \<lparr>GId = 2, First = Some 2, Best = None, Cost = 0, Done = False,
      HintOk = False, RelPropsDistinct = unknownDistinctOp\<rparr>]"
  by (simp add: exIndexed_def MemoizeIndexScan_def allocRel_def Prepend_def SetGroup_def SetNext_def
        Let_def exSources_groups exSources_rels)

lemma exIndexed_rels: "rels exIndexed =
  [\<lparr>relG = Some 0, relN = None, relC = 0, relCnt = 0,
      relD = unknownDistinctOp, body = TableScan ''xy''\<rparr>,
   \<lparr>relG = Some 1, relN = None, relC = 0, relCnt = 0,
      relD = unknownDistinctOp, body = TableScan ''UV''\<rparr>,
   \<lparr>relG = Some 1, relN = Some 1, relC = 0, relCnt = 0,
      relD = unknownDistinctOp,
      body = IndexScan \<lparr>itaName = ''uv'', itaExpressions = [1], itaNullMask = [False]\<rparr> ''uv'' 0\<rparr>]"
  by (simp add: exIndexed_def MemoizeIndexScan_def allocRel_def Prepend_def SetGroup_def SetNext_def
        Let_def exSources_groups exSources_rels)

lemma exOptimized_groups: "groups exOptimized =
  [\<lparr>GId = 1, First = Some 0, Best = None, Cost = 0, Done = False,
      HintOk = False, RelPropsDistinct = unknownDistinctOp\<rparr>,
   \<lparr>GId = 2, First = Some 1, Best = Some 1, Cost = 0, Done = True,
      HintOk = True, RelPropsDistinct = unknownDistinctOp\<rparr>]"
  by (simp add: exOptimized_def eval_nat_numeral deref_def isSourceRel_def setGroup_def
        SetDistinct_def Let_def exSources_groups exSources_rels)

lemma exOptimized_rels: "rels exOptimized =
  [\<lparr>relG = Some 0, relN = None, relC = 0, relCnt = 0,
      relD = unknownDistinctOp, body = TableScan ''xy''\<rparr>,
   \<lparr>relG = Some 1, relN = None, relC = 0, relCnt = 0, relD = noDistinctOp,
      body = TableScan ''UV''\<rparr>]"
  by (simp add: exOptimized_def eval_nat_numeral deref_def isSourceRel_def setGroup_def
        SetDistinct_def Let_def exSources_groups exSources_rels)

lemma exReopened_groups: "groups exReopened =
  [\<lparr>GId = 1, First = Some 0, Best = None, Cost = 0, Done = False,
      HintOk = False, RelPropsDistinct = unknownDistinctOp\<rparr>,
   \<lparr>GId = 2, First = Some 2, Best = Some 1, Cost = 0, Done = True,
      HintOk = True, RelPropsDistinct = unknownDistinctOp\<rparr>]"
  by (simp add: exReopened_def MemoizeIndexScan_def allocRel_def Prepend_def SetGroup_def SetNext_def
        Let_def exOptimized_groups exOptimized_rels)

lemma exReopened_rels: "rels exReopened =
  [\<lparr>relG = Some 0, relN = None, relC = 0, relCnt = 0,
      relD = unknownDistinctOp, body = TableScan ''xy''\<rparr>,
   \<lparr>relG = Some 1, relN = None, relC = 0, relCnt = 0, relD = noDistinctOp,
      body = TableScan ''UV''\<rparr>,
   \<lparr>relG = Some 1, relN = Some 1, relC = 0, relCnt = 0,
      relD = unknownDistinctOp,
      body = IndexScan \<lparr>itaName = ''uv'', itaExpressions = [1], itaNullMask = [False]\<rparr> ''uv'' 0\<rparr>]"
  by (simp add: exReopened_def MemoizeIndexScan_def allocRel_def Prepend_def SetGroup_def SetNext_def
        Let_def exOptimized_groups exOptimized_rels)

lemma exJoin_hints: "hints exJoin = Some (\<lambda>_. True)"
  by (simp add: exJoin_def exScan_def exSources_def memoizeSourceRel_def allocRel_def NewMemo_def
        NewExprGroup_def newExprGroup_def SetGroup_def MemoizeInnerJoin_def Let_def lower_xy)







section \<open>Memoizing a join\<close>

lemma prepend_frame:
  assumes "g < length (groups m)" and "JoinPrivate e = Some join"
  shows "prependedTo m g join
           (Prepend (SetGroup (fst (allocRel m e)) (length (rels m)) (Some g)) g (length (rels m)), g)"
  using assms
  by (simp add: prependedTo_def Prepend_def SetGroup_def SetNext_def allocRel_def Let_def nth_append)

lemma new_group_frame:
  assumes "JoinPrivate e = Some join"
  shows "inNewGroup m join (NewExprGroup (fst (allocRel m e)) (length (rels m)))"
  using assms
  by (simp add: inNewGroup_def NewExprGroup_def newExprGroup_def SetGroup_def allocRel_def Let_def
        nth_append split: option.splits)

lemma MemoizeLeftJoin_frame:
  "g < length (groups m) \<Longrightarrow>
     prependedTo m g \<lparr>Op = op, Filter = f, Left = l, Right = r\<rparr> (MemoizeLeftJoin m (Some g) l r op f)"
  "inNewGroup m \<lparr>Op = op, Filter = f, Left = l, Right = r\<rparr> (MemoizeLeftJoin m None l r op f)"
  using prepend_frame [of g m "LeftJoin \<lparr>Op = op, Filter = f, Left = l, Right = r\<rparr>"]
        new_group_frame [of "LeftJoin \<lparr>Op = op, Filter = f, Left = l, Right = r\<rparr>" _ m]
  by (simp_all add: MemoizeLeftJoin_def allocRel_def)

lemma MemoizeInnerJoin_frame:
  "g < length (groups m) \<Longrightarrow>
     prependedTo m g \<lparr>Op = op, Filter = f, Left = l, Right = r\<rparr> (MemoizeInnerJoin m (Some g) l r op f)"
  "inNewGroup m \<lparr>Op = op, Filter = f, Left = l, Right = r\<rparr> (MemoizeInnerJoin m None l r op f)"
  using prepend_frame [of g m "InnerJoin \<lparr>Op = op, Filter = f, Left = l, Right = r\<rparr>"]
        new_group_frame [of "InnerJoin \<lparr>Op = op, Filter = f, Left = l, Right = r\<rparr>" _ m]
  by (simp_all add: MemoizeInnerJoin_def allocRel_def)

lemma MemoizeConcatLookupJoin_frame:
  "g < length (groups m) \<Longrightarrow>
     prependedTo m g \<lparr>Op = al op, Filter = f, Left = l, Right = r\<rparr>
       (MemoizeConcatLookupJoin al m (Some g) l r op f lks)"
  "inNewGroup m \<lparr>Op = al op, Filter = f, Left = l, Right = r\<rparr>
       (MemoizeConcatLookupJoin al m None l r op f lks)"
  using prepend_frame [of g m "ConcatJoin \<lparr>Op = al op, Filter = f, Left = l, Right = r\<rparr> lks"]
        new_group_frame [of "ConcatJoin \<lparr>Op = al op, Filter = f, Left = l, Right = r\<rparr> lks" _ m]
  by (simp_all add: MemoizeConcatLookupJoin_def allocRel_def)

lemma MemoizeMergeJoin_frame:
  "g < length (groups m) \<Longrightarrow>
     prependedTo m g \<lparr>Op = op, Filter = f, Left = l, Right = r\<rparr>
       (MemoizeMergeJoin m (Some g) l r li ri op f sw)"
  "inNewGroup m \<lparr>Op = op, Filter = f, Left = l, Right = r\<rparr>
       (MemoizeMergeJoin m None l r li ri op f sw)"
  using prepend_frame [of g m "MergeJoin \<lparr>Op = op, Filter = f, Left = l, Right = r\<rparr> li ri sw"]
        new_group_frame [of "MergeJoin \<lparr>Op = op, Filter = f, Left = l, Right = r\<rparr> li ri sw" _ m]
  by (simp_all add: MemoizeMergeJoin_def allocRel_def)

lemma MemoizeRangeHeapJoin_frame:
  "g < length (groups m) \<Longrightarrow>
     \<exists>res. MemoizeRangeHeapJoin m (Some g) l r op f (Some rh) = Return res
         \<and> prependedTo m g \<lparr>Op = op, Filter = f, Left = l, Right = r\<rparr> res"
  "\<exists>res. MemoizeRangeHeapJoin m None l r op f (Some rh) = Return res
         \<and> inNewGroup m \<lparr>Op = op, Filter = f, Left = l, Right = r\<rparr> res"
  using prepend_frame [of g m "RangeHeapJoin \<lparr>Op = op, Filter = f, Left = l, Right = r\<rparr>
                                 (rh\<lparr>Parent := Some (length (rels m))\<rparr>)"]
        new_group_frame [of "RangeHeapJoin \<lparr>Op = op, Filter = f, Left = l, Right = r\<rparr>
                                 (rh\<lparr>Parent := Some (length (rels m))\<rparr>)" _ m]
  by (simp_all add: MemoizeRangeHeapJoin_def allocRel_def)

lemma MemoizeLookupJoin_frame:
  "g < length (groups m) \<Longrightarrow> lookupValid m lk \<Longrightarrow>
     \<exists>res. MemoizeLookupJoin al isInj m (Some g) l r op f lk = Return res
         \<and> prependedTo m g \<lparr>Op = al op, Filter = f, Left = l, Right = r\<rparr> res"
  "\<exists>res. MemoizeLookupJoin al isInj m None l r op f lk = Return res
         \<and> inNewGroup m \<lparr>Op = al op, Filter = f, Left = l, Right = r\<rparr> res"
proof -
  let ?e = "LookupJoin \<lparr>Op = al op, Filter = f, Left = l, Right = r\<rparr> lk False"
  show "\<exists>res. MemoizeLookupJoin al isInj m None l r op f lk = Return res
         \<and> inNewGroup m \<lparr>Op = al op, Filter = f, Left = l, Right = r\<rparr> res"
    using new_group_frame [of ?e _ m]
    by (simp add: MemoizeLookupJoin_def allocRel_def)
  assume g: "g < length (groups m)" and v: "lookupValid m lk"
  from v obtain a where a: "lk = Some a" "a < length (rels m)" "isIndexScan (body (rels m ! a))"
    by (auto simp: lookupValid_def deref_def split: option.splits if_splits)
  then obtain t al' ix where b: "body (rels m ! a) = IndexScan t al' ix"
    by (cases "body (rels m ! a)") auto
  show "\<exists>res. MemoizeLookupJoin al isInj m (Some g) l r op f lk = Return res
         \<and> prependedTo m g \<lparr>Op = al op, Filter = f, Left = l, Right = r\<rparr> res"
    using g a b
    by (simp add: MemoizeLookupJoin_def prependedTo_def Prepend_def SetGroup_def SetNext_def
          allocRel_def Let_def nth_append deref_def)
qed


text \<open>
  Claim C3. Every join constructor of the memo (left, inner, concat-lookup, merge,
  range-heap, lookup), called with a target group \<open>g\<close>, makes the new join the head of
  the list of \<open>g\<close> with the previous head as its \<open>next\<close>, changes no expression that
  existed and no other group, and leaves best, cost and done of \<open>g\<close> as they were; called
  with a nil target it returns a new group whose first expression is the new join, and
  changes no group that existed. (The range-heap constructor is given a descriptor, the
  lookup constructor an index scan; with nil for either and a target group they panic.)
\<close>

theorem Memoize_join_prepends:
  assumes "g < length (groups m)"
  shows "prependedTo m g \<lparr>Op = op, Filter = f, Left = l, Right = r\<rparr> (MemoizeLeftJoin m (Some g) l r op f)
       \<and> prependedTo m g \<lparr>Op = op, Filter = f, Left = l, Right = r\<rparr> (MemoizeInnerJoin m (Some g) l r op f)
       \<and> prependedTo m g \<lparr>Op = al op, Filter = f, Left = l, Right = r\<rparr>
            (MemoizeConcatLookupJoin al m (Some g) l r op f lks)
       \<and> prependedTo m g \<lparr>Op = op, Filter = f, Left = l, Right = r\<rparr>
            (MemoizeMergeJoin m (Some g) l r li ri op f sw)
       \<and> (\<exists>res. MemoizeRangeHeapJoin m (Some g) l r op f (Some rh) = Return res
              \<and> prependedTo m g \<lparr>Op = op, Filter = f, Left = l, Right = r\<rparr> res)
       \<and> (lookupValid m lk \<longrightarrow>
            (\<exists>res. MemoizeLookupJoin al isInj m (Some g) l r op f lk = Return res
              \<and> prependedTo m g \<lparr>Op = al op, Filter = f, Left = l, Right = r\<rparr> res))
       \<and> inNewGroup m \<lparr>Op = op, Filter = f, Left = l, Right = r\<rparr> (MemoizeLeftJoin m None l r op f)
       \<and> inNewGroup m \<lparr>Op = op, Filter = f, Left = l, Right = r\<rparr> (MemoizeInnerJoin m None l r op f)
       \<and> inNewGroup m \<lparr>Op = al op, Filter = f, Left = l, Right = r\<rparr>
            (MemoizeConcatLookupJoin al m None l r op f lks)
       \<and> inNewGroup m \<lparr>Op = op, Filter = f, Left = l, Right = r\<rparr>
            (MemoizeMergeJoin m None l r li ri op f sw)
       \<and> (\<exists>res. MemoizeRangeHeapJoin m None l r op f (Some rh) = Return res
              \<and> inNewGroup m \<lparr>Op = op, Filter = f, Left = l, Right = r\<rparr> res)
       \<and> (\<exists>res. MemoizeLookupJoin al isInj m None l r op f lk = Return res
              \<and> inNewGroup m \<lparr>Op = al op, Filter = f, Left = l, Right = r\<rparr> res)"
  by (intro conjI impI MemoizeLeftJoin_frame MemoizeInnerJoin_frame MemoizeConcatLookupJoin_frame
        MemoizeMergeJoin_frame MemoizeRangeHeapJoin_frame MemoizeLookupJoin_frame assms)

theorem Memoize_join_prepends_witness:
  "2 < length (groups exJoin)
   \<and> lookupValid exJoin (Some 2)
   \<and> First (groups (fst (MemoizeLeftJoin exJoin (Some 2) (Some 1) (Some 0) 3 [1])) ! 2) = Some 4
   \<and> relN (rels (fst (MemoizeLeftJoin exJoin (Some 2) (Some 1) (Some 0) 3 [1])) ! 4) = Some 3
   \<and> rels (fst (MemoizeLeftJoin exJoin (Some 2) (Some 1) (Some 0) 3 [1])) ! 3 = rels exJoin ! 3
   \<and> groups (fst (MemoizeLeftJoin exJoin (Some 2) (Some 1) (Some 0) 3 [1])) ! 0 = groups exJoin ! 0
   \<and> (\<exists>res. MemoizeLookupJoin (\<lambda>op. op) (\<lambda>_ _ _ _ _. True) exJoin (Some 2) (Some 0) (Some 1) 0 [1] (Some 2)
               = Return res
           \<and> First (groups (fst res) ! 2) = Some 4 \<and> relN (rels (fst res) ! 4) = Some 3)
   \<and> snd (MemoizeInnerJoin exJoin None (Some 1) (Some 0) 0 [1]) = 3
   \<and> First (groups (fst (MemoizeInnerJoin exJoin None (Some 1) (Some 0) 0 [1])) ! 3) = Some 4
   \<and> groups (fst (MemoizeInnerJoin exJoin None (Some 1) (Some 0) 0 [1])) ! 2 = groups exJoin ! 2"
proof -
  have a: "2 < length (groups exJoin)" by (simp add: exJoin_groups)
  have b: "lookupValid exJoin (Some 2)" by (simp add: lookupValid_def deref_def exJoin_rels)
  have c: "length (rels exJoin) = 4" "length (groups exJoin) = 3" "First (groups exJoin ! 2) = Some 3"
    by (simp_all add: exJoin_rels exJoin_groups)
  note t = Memoize_join_prepends [OF a, where l = "Some 1" and r = "Some 0" and op = 3 and f = "[1]"]
  note u = Memoize_join_prepends [OF a, where l = "Some 0" and r = "Some 1" and op = 0 and f = "[1]"
             and al = "\<lambda>op. op" and isInj = "\<lambda>_ _ _ _ _. True" and lk = "Some 2"]
  note v = Memoize_join_prepends [OF a, where l = "Some 1" and r = "Some 0" and op = 0 and f = "[1]"]
  have t1: "prependedTo exJoin 2 \<lparr>Op = 3, Filter = [1], Left = Some 1, Right = Some 0\<rparr>
              (MemoizeLeftJoin exJoin (Some 2) (Some 1) (Some 0) 3 [1])"
    using t by blast
  have u1: "\<exists>res. MemoizeLookupJoin (\<lambda>op. op) (\<lambda>_ _ _ _ _. True) exJoin (Some 2) (Some 0) (Some 1) 0 [1] (Some 2)
               = Return res
           \<and> prependedTo exJoin 2 \<lparr>Op = 0, Filter = [1], Left = Some 0, Right = Some 1\<rparr> res"
    using u b by blast
  have v1: "inNewGroup exJoin \<lparr>Op = 0, Filter = [1], Left = Some 1, Right = Some 0\<rparr>
              (MemoizeInnerJoin exJoin None (Some 1) (Some 0) 0 [1])"
    using v by blast
  show ?thesis
    using a b t1 u1 v1 c
    by (auto simp: prependedTo_def inNewGroup_def Let_def split: prod.splits)
qed

section \<open>Marking lookups injective\<close>

text \<open>With a nil target group \<open>MemoizeLookupJoin\<close> returns before it asks
  \<open>isInjectiveLookup\<close>: the join in the new group is never marked.\<close>

lemma MemoizeLookupJoin_nil_group:
  "\<exists>m'. MemoizeLookupJoin al isInj m None l r op f lk = Return (m', length (groups m))
      \<and> First (groups m' ! length (groups m)) = Some (length (rels m))
      \<and> \<not> Injective (body (rels m' ! length (rels m)))"
  by (simp add: MemoizeLookupJoin_def allocRel_def NewExprGroup_def newExprGroup_def SetGroup_def Let_def
       nth_append split: prod.splits option.splits)

text \<open>
  Claim C6. On the small memo, with an \<open>isInjectiveLookup\<close> that answers yes: the lookup
  join memoized into a new group (nil target) is not marked \<open>Injective\<close>, the same join
  prepended to the existing join group is.
\<close>

theorem MemoizeLookupJoin_new_group_not_Injective:
  "(\<exists>m'. MemoizeLookupJoin (\<lambda>op. op) (\<lambda>_ _ _ _ _. True) exJoin None (Some 0) (Some 1) 0 [1] (Some 2)
            = Return (m', 3)
        \<and> First (groups m' ! 3) = Some 4
        \<and> \<not> Injective (body (rels m' ! 4)))
 \<and> (\<exists>m'. MemoizeLookupJoin (\<lambda>op. op) (\<lambda>_ _ _ _ _. True) exJoin (Some 2) (Some 0) (Some 1) 0 [1] (Some 2)
            = Return (m', 2)
        \<and> First (groups m' ! 2) = Some 4
        \<and> Injective (body (rels m' ! 4)))"
  by (simp add: MemoizeLookupJoin_def allocRel_def NewExprGroup_def newExprGroup_def SetGroup_def SetNext_def Prepend_def
       Let_def deref_def exJoin_groups exJoin_rels)


section \<open>Optimizing a source group\<close>

lemma firstIndexScan_alternatives:
  "alternatives k h n = Some xs \<Longrightarrow>
   firstIndexScan (k + j) h n = Some (find (\<lambda>a. isIndexScan (body (h ! a))) xs)"
proof (induction k arbitrary: n xs)
  case 0
  then show ?case by simp
next
  case (Suc k)
  show ?case
  proof (cases n)
    case None
    with Suc.prems show ?thesis by simp
  next
    case (Some a)
    with Suc.prems obtain ys where ys: "a < length h" "alternatives k h (relN (h ! a)) = Some ys" "xs = a # ys"
      by (auto split: if_splits)
    from Suc.IH [OF ys(2)] Some ys show ?thesis by simp
  qed
qed

lemma relC_update_relD: "relC (h[b := (h ! b)\<lparr>relD := dd\<rparr>] ! a) = relC (h ! a)"
  by (cases "a = b"; cases "b < length h") (simp_all add: list_update_beyond)

text \<open>
  Claim C4, as amended. For a group whose first expression is a source relation and
  whose list of alternatives ends in nil: if the group is not done, \<open>optimizeMemoGroup\<close>
  returns after marking it done and hint-ok and setting its best to the first
  \<open>IndexScan\<close> on the list, or to the first expression when there is none; it changes
  no cost (of the group or of any expression) and no other group, and the planner's
  coster has no part in the result (any two planners give the same). If the group is
  already done it returns at once and changes nothing.
\<close>

theorem optimizeMemoGroup_source:
  assumes "g < length (groups m)"
      and "First (groups m ! g) = Some f"
      and "alternatives k (rels m) (Some f) = Some xs"
      and "isSourceRel (body (rels m ! f))"
  shows "(\<not> Done (groups m ! g) \<longrightarrow>
            (\<exists>m'. optimizeMemoGroup (Suc (k + j)) P m (Some g) = Some (Return m')
                \<and> Done (groups m' ! g) \<and> HintOk (groups m' ! g)
                \<and> Best (groups m' ! g) = Some (firstIndexScanOr (rels m) xs f)
                \<and> Cost (groups m' ! g) = Cost (groups m ! g)
                \<and> (\<forall>h. h \<noteq> g \<longrightarrow> groups m' ! h = groups m ! h)
                \<and> (\<forall>a. relC (rels m' ! a) = relC (rels m ! a))
                \<and> optimizeMemoGroup (Suc (k + j)) P' m (Some g) = Some (Return m')))
       \<and> (Done (groups m ! g) \<longrightarrow> optimizeMemoGroup (Suc j) P m (Some g) = Some (Return m))"
proof (intro conjI impI)
  assume "Done (groups m ! g)"
  with assms(1) show "optimizeMemoGroup (Suc j) P m (Some g) = Some (Return m)"
    by (simp add: deref_def)
next
  assume nd: "\<not> Done (groups m ! g)"
  from assms(3) have fv: "f < length (rels m)"
    by (cases k) (auto split: if_splits)
  note fi = firstIndexScan_alternatives [OF assms(3), of j]
  let ?b = "firstIndexScanOr (rels m) xs f"
  let ?m' = "SetDistinct (setGroup m g ((groups m ! g)\<lparr>Done := True, HintOk := True, Best := Some ?b\<rparr>)) ?b noDistinctOp"
  have run: "optimizeMemoGroup (Suc (k + j)) Q m (Some g) = Some (Return ?m')" for Q
    using assms(1,2,4) nd fv fi
    by (auto simp: deref_def setGroup_def SetDistinct_def firstIndexScanOr_def Let_def
          split: option.splits)
  have props: "Done (groups ?m' ! g)" "HintOk (groups ?m' ! g)" "Best (groups ?m' ! g) = Some ?b"
     "Cost (groups ?m' ! g) = Cost (groups m ! g)"
     "\<forall>h. h \<noteq> g \<longrightarrow> groups ?m' ! h = groups m ! h"
    using assms(1) by (simp_all add: setGroup_def SetDistinct_def)
  have rc: "\<forall>a. relC (rels ?m' ! a) = relC (rels m ! a)"
    by (simp add: setGroup_def SetDistinct_def relC_update_relD)
  show "\<exists>m'. optimizeMemoGroup (Suc (k + j)) P m (Some g) = Some (Return m')
                \<and> Done (groups m' ! g) \<and> HintOk (groups m' ! g)
                \<and> Best (groups m' ! g) = Some (firstIndexScanOr (rels m) xs f)
                \<and> Cost (groups m' ! g) = Cost (groups m ! g)
                \<and> (\<forall>h. h \<noteq> g \<longrightarrow> groups m' ! h = groups m ! h)
                \<and> (\<forall>a. relC (rels m' ! a) = relC (rels m ! a))
                \<and> optimizeMemoGroup (Suc (k + j)) P' m (Some g) = Some (Return m')"
    using run [of P] run [of P'] props rc by blast
qed

theorem optimizeMemoGroup_source_witness:
  "1 < length (groups exIndexed)
   \<and> First (groups exIndexed ! 1) = Some 2
   \<and> alternatives 3 (rels exIndexed) (Some 2) = Some [2, 1]
   \<and> isSourceRel (body (rels exIndexed ! 2))
   \<and> \<not> Done (groups exIndexed ! 1)
   \<and> (\<exists>m'. optimizeMemoGroup 4 exPlanner exIndexed (Some 1) = Some (Return m')
          \<and> Done (groups m' ! 1) \<and> HintOk (groups m' ! 1) \<and> Best (groups m' ! 1) = Some 2
          \<and> groups m' ! 0 = groups exIndexed ! 0)
   \<and> Done (groups exReopened ! 1)
   \<and> optimizeMemoGroup 1 exPlanner exReopened (Some 1) = Some (Return exReopened)"
proof -
  have a: "1 < length (groups exIndexed)" "First (groups exIndexed ! 1) = Some 2"
          "isSourceRel (body (rels exIndexed ! 2))" "\<not> Done (groups exIndexed ! 1)"
    by (simp_all add: exIndexed_groups exIndexed_rels isSourceRel_def)
  have b: "alternatives 3 (rels exIndexed) (Some 2) = Some [2, 1]"
    by (simp add: eval_nat_numeral exIndexed_rels)
  have c: "firstIndexScanOr (rels exIndexed) [2, 1] 2 = 2"
    by (simp add: firstIndexScanOr_def exIndexed_rels)
  have a': "1 < length (groups exReopened)" "First (groups exReopened ! 1) = Some 2"
          "isSourceRel (body (rels exReopened ! 2))" "Done (groups exReopened ! 1)"
    by (simp_all add: exReopened_groups exReopened_rels isSourceRel_def)
  have b': "alternatives 3 (rels exReopened) (Some 2) = Some [2, 1]"
    by (simp add: eval_nat_numeral exReopened_rels)
  from optimizeMemoGroup_source [OF a(1) a(2) b a(3), of 0 exPlanner exPlanner] a(4) c
  have d: "\<exists>m'. optimizeMemoGroup 4 exPlanner exIndexed (Some 1) = Some (Return m')
          \<and> Done (groups m' ! 1) \<and> HintOk (groups m' ! 1) \<and> Best (groups m' ! 1) = Some 2
          \<and> groups m' ! 0 = groups exIndexed ! 0"
    by (auto simp: eval_nat_numeral)
  from optimizeMemoGroup_source [OF a'(1) a'(2) b' a'(3), of 0 exPlanner exPlanner] a'(4)
  have e: "optimizeMemoGroup 1 exPlanner exReopened (Some 1) = Some (Return exReopened)"
    by simp
  from a b d a'(4) e show ?thesis by blast
qed

text \<open>
  Claim C4 as stated fails for a group that is already done. Group 1 (table uv) is
  optimized, which fixes its best to the table scan; then an index scan is memoized into
  it. The first expression is now an \<open>IndexScan\<close>, a source, but \<open>optimizeMemoGroup\<close>
  returns the memo as it is, with the table scan as best.
\<close>

theorem optimizeMemoGroup_source_counterexample:
  "First (groups exReopened ! 1) = Some 2
   \<and> isSourceRel (body (rels exReopened ! 2))
   \<and> isIndexScan (body (rels exReopened ! 2))
   \<and> optimizeMemoGroup 3 exPlanner exReopened (Some 1) = Some (Return exReopened)
   \<and> Best (groups exReopened ! 1) = Some 1"
  by (simp add: eval_nat_numeral deref_def isSourceRel_def exReopened_groups exReopened_rels)


section \<open>Hints and the best alternative\<close>

lemma satisfying_kept:
  "bestAmongSatisfying sat grp S \<Longrightarrow>
   bestAmongSatisfying sat (updateBest_each ties (Some sat) grp cs) (S \<union> set cs)"
proof (induction cs arbitrary: grp S)
  case Nil
  then show ?case by simp
next
  case (Cons x cs)
  obtain n c where x: "x = (n, c)" by (cases x)
  have "bestAmongSatisfying sat (updateBest_grp ties (Some sat) grp n c) (insert (n, c) S)"
    using Cons.prems
    unfolding bestAmongSatisfying_def updateBest_grp_def ExprGroup_updateBest_def
    by (auto split: if_splits)
  from Cons.IH [OF this] show ?case by (simp add: x)
qed

lemma satisfying_found:
  "\<not> HintOk grp \<Longrightarrow> \<exists>(n, c) \<in> set cs. sat n \<Longrightarrow>
   bestAmongSatisfying sat (updateBest_each ties (Some sat) grp cs) (set cs)"
proof (induction cs arbitrary: grp)
  case Nil
  then show ?case by simp
next
  case (Cons x cs)
  obtain n c where x: "x = (n, c)" by (cases x)
  show ?case
  proof (cases "sat n")
    case True
    with Cons.prems(1)
    have "bestAmongSatisfying sat (updateBest_grp ties (Some sat) grp n c) {(n, c)}"
      by (simp add: bestAmongSatisfying_def updateBest_grp_def)
    from satisfying_kept [OF this, of ties cs] show ?thesis by (simp add: x)
  next
    case False
    with Cons.prems x have tl: "\<exists>(n, c) \<in> set cs. sat n" by auto
    from False Cons.prems(1) have "\<not> HintOk (updateBest_grp ties (Some sat) grp n c)"
      by (simp add: updateBest_grp_def ExprGroup_updateBest_def)
    from Cons.IH [OF this tl] False show ?thesis
      by (auto simp: x bestAmongSatisfying_def)
  qed
qed

text \<open>
  Claim C1. A group that is not yet hint-ok is optimized under hints (a non-nil hint set
  with predicate \<open>sat\<close>), \<open>updateBest\<close> being called for each candidate in turn. If some
  candidate satisfies the hints then, at the end, the group is hint-ok, its best
  expression is a candidate that satisfies the hints, whatever the costs of the
  candidates that do not, and the cost of the group is the least cost of the candidates
  that satisfy them. (That \<open>optimizeMemoGroup\<close> leaves a join group as these calls leave
  it is lemma \<open>optimizeMemoGroup_candidates\<close> below.)
\<close>

theorem updateBest_hint_fidelity:
  assumes "\<not> HintOk grp" and "(n0, c0) \<in> set cs" and "sat n0"
  shows "HintOk (updateBest_each ties (Some sat) grp cs)
       \<and> (\<exists>b. Best (updateBest_each ties (Some sat) grp cs) = Some b \<and> sat b
              \<and> (b, Cost (updateBest_each ties (Some sat) grp cs)) \<in> set cs)
       \<and> (\<forall>(n, c) \<in> set cs. sat n \<longrightarrow> Cost (updateBest_each ties (Some sat) grp cs) \<le> c)"
proof -
  from assms(2,3) have "\<exists>(n, c) \<in> set cs. sat n" by auto
  from satisfying_found [OF assms(1) this, of ties] show ?thesis
    by (simp add: bestAmongSatisfying_def)
qed

theorem updateBest_hint_fidelity_witness:
  "\<not> HintOk exGroup \<and> (4, 9) \<in> set exCandidates \<and> exHint 4
   \<and> Best (updateBest_each False (Some exHint) exGroup exCandidates) = Some 6
   \<and> Cost (updateBest_each False (Some exHint) exGroup exCandidates) = 7
   \<and> HintOk (updateBest_each False (Some exHint) exGroup exCandidates)"
proof -
  have a: "\<not> HintOk exGroup" by (simp add: exGroup_def)
  have b: "(4, 9) \<in> set exCandidates" by (simp add: exCandidates_def)
  have c: "exHint 4" by (simp add: exHint_def)
  from updateBest_hint_fidelity [where sat = exHint and ties = False, OF a b c]
  show ?thesis using a b c
    by (auto simp: exGroup_def exCandidates_def exHint_def updateBest_grp_def ExprGroup_updateBest_def)
qed

lemma overall_kept:
  "bestOverall grp S \<Longrightarrow> \<forall>(n, c) \<in> set cs. \<not> sat n \<Longrightarrow>
   bestOverall (updateBest_each ties (Some sat) grp cs) (S \<union> set cs)"
proof (induction cs arbitrary: grp S)
  case Nil
  then show ?case by simp
next
  case (Cons x cs)
  obtain n c where x: "x = (n, c)" by (cases x)
  have "bestOverall (updateBest_grp ties (Some sat) grp n c) (insert (n, c) S)"
    using Cons.prems x
    unfolding bestOverall_def updateBest_grp_def ExprGroup_updateBest_def
    by (auto split: if_splits)
  from Cons.IH [OF this] Cons.prems(2) show ?case by (simp add: x)
qed

text \<open>
  Claim C2. A fresh group (no best expression, not hint-ok) with at least one candidate
  is optimized under hints that no candidate satisfies. At the end the group has a best
  expression, a candidate of least cost among all candidates, and is still not hint-ok.
\<close>

theorem updateBest_hints_advisory:
  assumes "Best grp = None" and "\<not> HintOk grp" and "cs \<noteq> []"
      and "\<forall>(n, c) \<in> set cs. \<not> sat n"
  shows "\<not> HintOk (updateBest_each ties (Some sat) grp cs)
       \<and> (\<exists>b. Best (updateBest_each ties (Some sat) grp cs) = Some b
              \<and> (b, Cost (updateBest_each ties (Some sat) grp cs)) \<in> set cs)
       \<and> (\<forall>(n, c) \<in> set cs. Cost (updateBest_each ties (Some sat) grp cs) \<le> c)"
proof -
  from assms(3) obtain n c cs' where cs: "cs = (n, c) # cs'" by (cases cs) auto
  with assms(4) have ns: "\<not> sat n" "\<forall>(n, c) \<in> set cs'. \<not> sat n" by auto
  from assms(1,2) ns(1)
  have "bestOverall (updateBest_grp ties (Some sat) grp n c) {(n, c)}"
    by (simp add: bestOverall_def updateBest_grp_def ExprGroup_updateBest_def)
  from overall_kept [OF this ns(2), of ties] show ?thesis
    by (simp add: cs bestOverall_def)
qed

theorem updateBest_hints_advisory_witness:
  "Best exGroup = None \<and> \<not> HintOk exGroup \<and> exCandidates \<noteq> []
   \<and> list_all (\<lambda>(n, c). \<not> exHintNone n) exCandidates
   \<and> Best (updateBest_each False (Some exHintNone) exGroup exCandidates) = Some 3
   \<and> Cost (updateBest_each False (Some exHintNone) exGroup exCandidates) = 2
   \<and> \<not> HintOk (updateBest_each False (Some exHintNone) exGroup exCandidates)"
proof -
  have a: "Best exGroup = None" "\<not> HintOk exGroup" by (simp_all add: exGroup_def)
  have b: "exCandidates \<noteq> []" by (simp add: exCandidates_def)
  have c: "\<forall>(n, c) \<in> set exCandidates. \<not> exHintNone n"
    by (simp add: exCandidates_def exHintNone_def)
  have c': "list_all (\<lambda>(n, c). \<not> exHintNone n) exCandidates"
    using c by (simp add: list_all_iff)
  from updateBest_hints_advisory [where sat = exHintNone and ties = False, OF a b c]
  show ?thesis using a b c'
    by (auto simp: exGroup_def exCandidates_def exHintNone_def updateBest_grp_def ExprGroup_updateBest_def)
qed

section \<open>The loop of optimizeMemoGroup calls updateBest once for each alternative\<close>

text \<open>Optimizing the operand groups of an alternative leaves the group itself alone
  when the memo is a DAG, so the group ends as \<open>updateBest_each\<close> leaves it, on one
  candidate for each alternative in the order of the list; then it is marked done.\<close>

lemma sameShape_refl: "sameShape m m"
  by (simp add: sameShape_def)

lemma sameShape_trans: "sameShape m m1 \<Longrightarrow> sameShape m1 m2 \<Longrightarrow> sameShape m m2"
  by (simp add: sameShape_def)

lemma sameShape_wellGrouped: "sameShape m m' \<Longrightarrow> wellGrouped m \<Longrightarrow> wellGrouped m'"
  by (simp add: sameShape_def wellGrouped_def)

lemma sameShape_ranked: "sameShape m m' \<Longrightarrow> ranked rank m \<Longrightarrow> ranked rank m'"
  by (simp add: sameShape_def ranked_def)

lemma sameShape_SetDistinct: "sameShape m (SetDistinct m n dd)"
  by (simp add: sameShape_def SetDistinct_def nth_update_field)

lemma sameShape_SetCost: "sameShape m (SetCost m n co)"
  by (simp add: sameShape_def SetCost_def nth_update_field)

lemma sameShape_setGroup:
  "First grp = First (groups m ! g) \<Longrightarrow> RelPropsDistinct grp = RelPropsDistinct (groups m ! g) \<Longrightarrow>
   sameShape m (setGroup m g grp)"
  by (simp add: sameShape_def setGroup_def nth_update_field)

lemma updateBest_grp_shape:
  "First (updateBest_grp ties hs grp n c) = First grp"
  "RelPropsDistinct (updateBest_grp ties hs grp n c) = RelPropsDistinct grp"
  by (simp_all add: updateBest_grp_def ExprGroup_updateBest_def split: option.splits)

lemma sameShape_updateBest: "sameShape m (updateBest ties m g n c)"
  by (simp add: sameShape_def updateBest_def nth_update_field updateBest_grp_shape)

lemma groups_SetDistinct [simp]: "groups (SetDistinct m n dd) = groups m"
  by (simp add: SetDistinct_def)

lemma groups_SetCost [simp]: "groups (SetCost m n co) = groups m"
  by (simp add: SetCost_def)

lemma hints_SetDistinct [simp]: "hints (SetDistinct m n dd) = hints m"
  by (simp add: SetDistinct_def)

lemma hints_SetCost [simp]: "hints (SetCost m n co) = hints m"
  by (simp add: SetCost_def)

lemma costAlternative_shape: "sameShape m (costAlternative P m g n cost relCost)"
  unfolding costAlternative_def Let_def
  by (auto split: if_splits prod.splits
        intro!: sameShape_trans [OF _ sameShape_updateBest]
                sameShape_trans [OF sameShape_SetDistinct sameShape_SetCost])

lemma costAlternative_groups:
  "\<exists>c. groups (costAlternative P m g n cost relCost)
         = (groups m)[g := updateBest_grp (tiesReplace P) (hints m) (groups m ! g) n c]"
  unfolding costAlternative_def Let_def updateBest_def
  by (auto split: if_splits prod.splits)


lemma alternatives_shape:
  "sameShape m m' \<Longrightarrow> alternatives k (rels m') n = alternatives k (rels m) n"
proof (induction k arbitrary: n)
  case 0
  then show ?case by simp
next
  case (Suc k)
  then show ?case by (cases n) (auto simp: sameShape_def)
qed

lemma optimize_frame:
  assumes fx: "fixesBelow rank P"
  shows
  "(\<forall>m g m'. optimizeMemoGroup k P m (Some g) = Some (Return m') \<longrightarrow> wellGrouped m \<longrightarrow>
       ranked rank m \<longrightarrow>
       sameShape m m' \<and> (\<forall>h. rank g \<le> rank h \<longrightarrow> h \<noteq> g \<longrightarrow> groups m' ! h = groups m ! h))
 \<and> (\<forall>m g n m'. optimizeAlts k P m g n = Some (Return m') \<longrightarrow> wellGrouped m \<longrightarrow>
       ranked rank m \<longrightarrow> g < length (groups m) \<longrightarrow>
       (\<forall>a. n = Some a \<longrightarrow> relG (rels m ! a) = Some g) \<longrightarrow>
       sameShape m m' \<and> (\<forall>h. rank g \<le> rank h \<longrightarrow> h \<noteq> g \<longrightarrow> groups m' ! h = groups m ! h)
       \<and> (\<exists>cs. groups m' ! g = updateBest_each (tiesReplace P) (hints m) (groups m ! g) cs
              \<and> alternatives (Suc (length cs)) (rels m) n = Some (map fst cs)))
 \<and> (\<forall>m cs cost m' cost' r. optimizeChildren k P m cs cost = Some (Return (m', cost')) \<longrightarrow>
       wellGrouped m \<longrightarrow> ranked rank m \<longrightarrow> (\<forall>c. Some c \<in> set cs \<longrightarrow> rank c < r) \<longrightarrow>
       sameShape m m' \<and> (\<forall>h. r \<le> rank h \<longrightarrow> groups m' ! h = groups m ! h))"
proof (induction k)
  case 0
  then show ?case by simp
next
  case (Suc k)
  then have ih1: "\<And>m g m'. optimizeMemoGroup k P m (Some g) = Some (Return m') \<Longrightarrow> wellGrouped m \<Longrightarrow>
       ranked rank m \<Longrightarrow>
       sameShape m m' \<and> (\<forall>h. rank g \<le> rank h \<longrightarrow> h \<noteq> g \<longrightarrow> groups m' ! h = groups m ! h)"
    and ih2: "\<And>m g n m'. optimizeAlts k P m g n = Some (Return m') \<Longrightarrow> wellGrouped m \<Longrightarrow>
       ranked rank m \<Longrightarrow> g < length (groups m) \<Longrightarrow>
       (\<forall>a. n = Some a \<longrightarrow> relG (rels m ! a) = Some g) \<Longrightarrow>
       sameShape m m' \<and> (\<forall>h. rank g \<le> rank h \<longrightarrow> h \<noteq> g \<longrightarrow> groups m' ! h = groups m ! h)
       \<and> (\<exists>cs. groups m' ! g = updateBest_each (tiesReplace P) (hints m) (groups m ! g) cs
              \<and> alternatives (Suc (length cs)) (rels m) n = Some (map fst cs))"
    and ih3: "\<And>m cs cost m' cost' r. optimizeChildren k P m cs cost = Some (Return (m', cost')) \<Longrightarrow>
       wellGrouped m \<Longrightarrow> ranked rank m \<Longrightarrow> (\<forall>c. Some c \<in> set cs \<longrightarrow> rank c < r) \<Longrightarrow>
       sameShape m m' \<and> (\<forall>h. r \<le> rank h \<longrightarrow> groups m' ! h = groups m ! h)"
    by blast+
  have f3: "sameShape m m' \<and> (\<forall>h. r \<le> rank h \<longrightarrow> groups m' ! h = groups m ! h)"
    if run: "optimizeChildren (Suc k) P m cs cost = Some (Return (m', cost'))"
      and wg: "wellGrouped m" and rk: "ranked rank m"
      and lo: "\<forall>c. Some c \<in> set cs \<longrightarrow> rank c < r"
    for m cs cost m' cost' r
  proof (cases cs)
    case Nil
    with run show ?thesis by (simp add: sameShape_refl)
  next
    case (Cons c cs')
    from run Cons obtain m1 where m1: "optimizeMemoGroup k P m c = Some (Return m1)"
        "optimizeChildren k P m1 cs' (cost + Cost (groups m1 ! the c)) = Some (Return (m', cost'))"
      by (auto split: option.splits result.splits)
    then obtain g where g: "c = Some g"
      by (cases k; cases c) (auto simp: deref_def)
    from lo Cons g have lt: "rank g < r" by simp
    from ih1 [OF m1(1) [unfolded g] wg rk]
    have a: "sameShape m m1" "\<forall>h. rank g \<le> rank h \<longrightarrow> h \<noteq> g \<longrightarrow> groups m1 ! h = groups m ! h"
      by blast+
    from lo Cons have lo': "\<forall>c. Some c \<in> set cs' \<longrightarrow> rank c < r" by simp
    from ih3 [OF m1(2) sameShape_wellGrouped [OF a(1) wg] sameShape_ranked [OF a(1) rk] lo']
    have b: "sameShape m1 m'" "\<forall>h. r \<le> rank h \<longrightarrow> groups m' ! h = groups m1 ! h" by blast+
    have "\<forall>h. r \<le> rank h \<longrightarrow> groups m' ! h = groups m ! h"
    proof (intro allI impI)
      fix h assume h: "r \<le> rank h"
      with lt have "rank g \<le> rank h" "h \<noteq> g" by auto
      with a(2) b(2) h show "groups m' ! h = groups m ! h" by simp
    qed
    with sameShape_trans [OF a(1) b(1)] show ?thesis by blast
  qed
  have f2: "sameShape m m' \<and> (\<forall>h. rank g \<le> rank h \<longrightarrow> h \<noteq> g \<longrightarrow> groups m' ! h = groups m ! h)
       \<and> (\<exists>cs. groups m' ! g = updateBest_each (tiesReplace P) (hints m) (groups m ! g) cs
              \<and> alternatives (Suc (length cs)) (rels m) n = Some (map fst cs))"
    if run: "optimizeAlts (Suc k) P m g n = Some (Return m')"
      and wg: "wellGrouped m" and rk: "ranked rank m" and gv: "g < length (groups m)"
      and own: "\<forall>a. n = Some a \<longrightarrow> relG (rels m ! a) = Some g"
    for m g n m'
  proof (cases n)
    case None
    with run have "m' = m" by simp
    moreover have "groups m ! g = updateBest_each (tiesReplace P) (hints m) (groups m ! g) []
                   \<and> alternatives (Suc (length ([] :: (ptr \<times> real) list))) (rels m) None
                       = Some (map fst ([] :: (ptr \<times> real) list))"
      by simp
    ultimately show ?thesis using None by (auto simp: sameShape_refl)
  next
    case (Some a)
    from run Some have av: "a < length (rels m)"
      by (auto simp: deref_def split: if_splits)
    let ?r = "rels m ! a"
    from run Some av obtain m1 cost relCost where
      ch: "optimizeChildren k P m (Children (body ?r)) 0 = Some (Return (m1, cost))"
      and ec: "EstimateCost P m1 a = Inr relCost"
      and rest: "optimizeAlts k P (costAlternative P m1 g a cost relCost) g
                   (relN (rels (costAlternative P m1 g a cost relCost) ! a)) = Some (Return m')"
      by (auto simp: deref_def Let_def split: option.splits result.splits sum.splits)
    from own Some have og: "relG ?r = Some g" by simp
    from rk av og have lo: "\<forall>c. Some c \<in> set (Children (body ?r)) \<longrightarrow> rank c < rank g"
      by (auto simp: ranked_def)
    from ih3 [OF ch wg rk lo]
    have a1: "sameShape m m1" "\<forall>h. rank g \<le> rank h \<longrightarrow> groups m1 ! h = groups m ! h" by blast+
    let ?m2 = "costAlternative P m1 g a cost relCost"
    have s12: "sameShape m1 ?m2" by (rule costAlternative_shape)
    note s2 = sameShape_trans [OF a1(1) s12]
    from costAlternative_groups [of P m1 g a cost relCost] obtain c where
      c: "groups ?m2 = (groups m1)[g := updateBest_grp (tiesReplace P) (hints m1) (groups m1 ! g) a c]"
      by blast
    have gv2: "g < length (groups ?m2)" using s2 gv by (simp add: sameShape_def)
    have nx: "relN (rels ?m2 ! a) = relN ?r" using s2 by (simp add: sameShape_def)
    have own2: "\<forall>b. relN (rels ?m2 ! a) = Some b \<longrightarrow> relG (rels ?m2 ! b) = Some g"
      using wg av og s2 by (auto simp: wellGrouped_def sameShape_def)
    from ih2 [OF rest sameShape_wellGrouped [OF s2 wg] sameShape_ranked [OF s2 rk] gv2 own2]
    obtain cs where
      a2: "sameShape ?m2 m'"
          "\<forall>h. rank g \<le> rank h \<longrightarrow> h \<noteq> g \<longrightarrow> groups m' ! h = groups ?m2 ! h"
          "groups m' ! g = updateBest_each (tiesReplace P) (hints ?m2) (groups ?m2 ! g) cs"
          "alternatives (Suc (length cs)) (rels ?m2) (relN (rels ?m2 ! a)) = Some (map fst cs)"
      by blast
    have h2: "hints ?m2 = hints m" "hints m1 = hints m" using s2 a1(1) by (simp_all add: sameShape_def)
    have g1: "groups m1 ! g = groups m ! g" using a1(2) by simp
    have gl1: "g < length (groups m1)" using a1(1) gv by (simp add: sameShape_def)
    have g2: "groups ?m2 ! g = updateBest_grp (tiesReplace P) (hints m) (groups m ! g) a c"
      using c gl1 g1 h2 by simp
    have fr: "\<forall>h. rank g \<le> rank h \<longrightarrow> h \<noteq> g \<longrightarrow> groups m' ! h = groups m ! h"
      using a2(2) c a1(2) by simp
    have al: "alternatives (Suc (length cs)) (rels m) (relN ?r) = Some (map fst cs)"
      using a2(4) alternatives_shape [OF s2] nx by simp
    have "groups m' ! g = updateBest_each (tiesReplace P) (hints m) (groups m ! g) ((a, c) # cs)
          \<and> alternatives (Suc (length ((a, c) # cs))) (rels m) n = Some (map fst ((a, c) # cs))"
      using a2(3) g2 h2 al Some av by simp
    with sameShape_trans [OF s2 a2(1)] fr show ?thesis by blast
  qed
  have f1: "sameShape m m' \<and> (\<forall>h. rank g \<le> rank h \<longrightarrow> h \<noteq> g \<longrightarrow> groups m' ! h = groups m ! h)"
    if run: "optimizeMemoGroup (Suc k) P m (Some g) = Some (Return m')"
      and wg: "wellGrouped m" and rk: "ranked rank m"
    for m g m'
  proof -
    from run have gv: "g < length (groups m)"
      by (auto simp: deref_def split: if_splits)
    let ?grp = "groups m ! g"
    show ?thesis
    proof (cases "Done ?grp")
      case True
      with run gv have "m' = m" by (simp add: deref_def)
      then show ?thesis by (simp add: sameShape_refl)
    next
      case nd: False
      show ?thesis
      proof (cases "case deref (rels m) (First ?grp) of Some r \<Rightarrow> isSourceRel (body r) | None \<Rightarrow> False")
        case True
        let ?m1 = "setGroup m g (?grp\<lparr>Done := True, HintOk := True, Best := First ?grp\<rparr>)"
        from run gv nd True obtain found where
          fi: "firstIndexScan k (rels ?m1) (First ?grp) = Some found"
          by (cases "firstIndexScan k (rels ?m1) (First ?grp)") (auto simp: deref_def Let_def)
        from run gv nd True fi have
          m': "m' = SetDistinct (case found of
                       Some a \<Rightarrow> setGroup ?m1 g ((groups ?m1 ! g)\<lparr>Best := Some a\<rparr>)
                     | None \<Rightarrow> ?m1)
                    (the (Best (groups (case found of
                       Some a \<Rightarrow> setGroup ?m1 g ((groups ?m1 ! g)\<lparr>Best := Some a\<rparr>)
                     | None \<Rightarrow> ?m1) ! g))) noDistinctOp"
          by (simp add: deref_def Let_def)
        have s1: "sameShape m ?m1" by (rule sameShape_setGroup) simp_all
        let ?m2 = "case found of
                       Some a \<Rightarrow> setGroup ?m1 g ((groups ?m1 ! g)\<lparr>Best := Some a\<rparr>)
                     | None \<Rightarrow> ?m1"
        have s2: "sameShape ?m1 ?m2"
          by (cases found) (auto intro: sameShape_refl sameShape_setGroup)
        have s3: "sameShape ?m2 m'" unfolding m' by (rule sameShape_SetDistinct)
        have "\<forall>h. h \<noteq> g \<longrightarrow> groups m' ! h = groups m ! h"
          unfolding m' by (cases found) (auto simp: setGroup_def)
        with sameShape_trans [OF sameShape_trans [OF s1 s2] s3] show ?thesis by blast
      next
        case False
        from run gv nd False obtain m1 where
          al: "optimizeAlts k P m g (First ?grp) = Some (Return m1)"
          and m': "m' = setGroup (fixConflicts P m1 g) g ((groups (fixConflicts P m1 g) ! g)\<lparr>Done := True\<rparr>)"
          by (auto simp: deref_def Let_def split: option.splits result.splits)
        from wg gv have own: "\<forall>a. First ?grp = Some a \<longrightarrow> relG (rels m ! a) = Some g"
          by (simp add: wellGrouped_def)
        from ih2 [OF al wg rk gv own]
        have a1: "sameShape m m1" "\<forall>h. rank g \<le> rank h \<longrightarrow> h \<noteq> g \<longrightarrow> groups m1 ! h = groups m ! h"
          by blast+
        let ?m2 = "fixConflicts P m1 g"
        from fx have a2: "sameShape m1 ?m2" "\<forall>h. rank g \<le> rank h \<longrightarrow> groups ?m2 ! h = groups m1 ! h"
          by (simp_all add: fixesBelow_def)
        have s3: "sameShape ?m2 m'" unfolding m' by (rule sameShape_setGroup) simp_all
        have "\<forall>h. rank g \<le> rank h \<longrightarrow> h \<noteq> g \<longrightarrow> groups m' ! h = groups m ! h"
          using a1(2) a2(2) unfolding m' by (simp add: setGroup_def)
        with sameShape_trans [OF sameShape_trans [OF a1(1) a2(1)] s3] show ?thesis by blast
      qed
    qed
  qed
  from f1 f2 f3 show ?case by blast
qed


lemma optimizeMemoGroup_candidates:
  assumes fx: "fixesBelow rank P" and wg: "wellGrouped m" and rk: "ranked rank m"
      and run: "optimizeMemoGroup k P m (Some g) = Some (Return m')"
      and nd: "\<not> Done (groups m ! g)"
      and ns: "\<not> (case deref (rels m) (First (groups m ! g)) of
                    Some r \<Rightarrow> isSourceRel (body r) | None \<Rightarrow> False)"
  shows "\<exists>cs. alternatives (Suc (length cs)) (rels m) (First (groups m ! g)) = Some (map fst cs)
            \<and> groups m' ! g
                = (updateBest_each (tiesReplace P) (hints m) (groups m ! g) cs)\<lparr>Done := True\<rparr>"
proof -
  from run obtain k' where k: "k = Suc k'" by (cases k) auto
  from run k have gv: "g < length (groups m)"
    by (auto simp: deref_def split: if_splits)
  let ?grp = "groups m ! g"
  from run k gv nd ns obtain m1 where
    al: "optimizeAlts k' P m g (First ?grp) = Some (Return m1)"
    and m': "m' = setGroup (fixConflicts P m1 g) g ((groups (fixConflicts P m1 g) ! g)\<lparr>Done := True\<rparr>)"
    by (auto simp: deref_def Let_def split: option.splits result.splits)
  from wg gv have own: "\<forall>a. First ?grp = Some a \<longrightarrow> relG (rels m ! a) = Some g"
    by (simp add: wellGrouped_def)
  from optimize_frame [OF fx, of k'] al wg rk gv own obtain cs where
    a1: "sameShape m m1"
        "groups m1 ! g = updateBest_each (tiesReplace P) (hints m) (groups m ! g) cs"
        "alternatives (Suc (length cs)) (rels m) (First ?grp) = Some (map fst cs)"
    by blast
  from fx have a2: "groups (fixConflicts P m1 g) ! g = groups m1 ! g"
      "sameShape m1 (fixConflicts P m1 g)"
    by (simp_all add: fixesBelow_def)
  have "g < length (groups (fixConflicts P m1 g))"
    using a1(1) a2(2) gv by (simp add: sameShape_def)
  then have "groups m' ! g = (groups m1 ! g)\<lparr>Done := True\<rparr>"
    unfolding m' using a2(1) by (simp add: setGroup_def)
  with a1(2,3) show ?thesis by auto
qed

lemma alternatives_unique:
  "alternatives k h n = Some xs \<Longrightarrow> alternatives k' h n = Some ys \<Longrightarrow> xs = ys"
proof (induction k arbitrary: k' n xs ys)
  case 0
  then show ?case by simp
next
  case (Suc k)
  from Suc.prems(2) obtain j where j: "k' = Suc j" by (cases k') auto
  show ?case
  proof (cases n)
    case None
    with Suc.prems j show ?thesis by simp
  next
    case (Some a)
    with Suc.prems j obtain xs' ys' where
      "alternatives k h (relN (h ! a)) = Some xs'" "xs = a # xs'"
      "alternatives j h (relN (h ! a)) = Some ys'" "ys = a # ys'"
      by (auto split: if_splits)
    with Suc.IH show ?thesis by blast
  qed
qed

text \<open>
  Claims C1 and C2 for \<open>optimizeMemoGroup\<close> itself, on a memo that is a DAG and with a
  \<open>fixConflicts\<close> that writes only below its group: when the optimization of a join
  group returns, the group is as the \<open>updateBest\<close> calls on its alternatives (in the
  order of the list, with the costs the loop computed) leave it, and is done.
\<close>

lemma optimizeMemoGroup_hint_fidelity:
  assumes fx: "fixesBelow rank P" and wg: "wellGrouped m" and rk: "ranked rank m"
      and run: "optimizeMemoGroup k P m (Some g) = Some (Return m')"
      and nd: "\<not> Done (groups m ! g)"
      and ns: "\<not> (case deref (rels m) (First (groups m ! g)) of
                    Some r \<Rightarrow> isSourceRel (body r) | None \<Rightarrow> False)"
      and hs: "hints m = Some sat" and nh: "\<not> HintOk (groups m ! g)"
      and xs: "alternatives j (rels m) (First (groups m ! g)) = Some xs"
      and a: "a \<in> set xs" "sat a"
  shows "Done (groups m' ! g) \<and> HintOk (groups m' ! g)
       \<and> (\<exists>b \<in> set xs. Best (groups m' ! g) = Some b \<and> sat b)
       \<and> (\<exists>cs. map fst cs = xs \<and> bestAmongSatisfying sat (groups m' ! g) (set cs))"
proof -
  from optimizeMemoGroup_candidates [OF fx wg rk run nd ns] obtain cs where
    cs: "alternatives (Suc (length cs)) (rels m) (First (groups m ! g)) = Some (map fst cs)"
        "groups m' ! g = (updateBest_each (tiesReplace P) (hints m) (groups m ! g) cs)\<lparr>Done := True\<rparr>"
    by blast
  from alternatives_unique [OF xs cs(1)] have e: "xs = map fst cs" .
  with a have "\<exists>(n, c) \<in> set cs. sat n" by auto
  from satisfying_found [OF nh this, of "tiesReplace P"] cs(2) hs
  have b: "bestAmongSatisfying sat (groups m' ! g) (set cs)" "Done (groups m' ! g)"
    by (simp_all add: bestAmongSatisfying_def)
  from b(1) e have "\<exists>b \<in> set xs. Best (groups m' ! g) = Some b \<and> sat b"
    by (force simp: bestAmongSatisfying_def)
  with b e show ?thesis by (auto simp: bestAmongSatisfying_def)
qed

lemma optimizeMemoGroup_hints_advisory:
  assumes fx: "fixesBelow rank P" and wg: "wellGrouped m" and rk: "ranked rank m"
      and run: "optimizeMemoGroup k P m (Some g) = Some (Return m')"
      and nd: "\<not> Done (groups m ! g)"
      and ns: "\<not> (case deref (rels m) (First (groups m ! g)) of
                    Some r \<Rightarrow> isSourceRel (body r) | None \<Rightarrow> False)"
      and hs: "hints m = Some sat" and nh: "\<not> HintOk (groups m ! g)"
      and nb: "Best (groups m ! g) = None"
      and xs: "alternatives j (rels m) (First (groups m ! g)) = Some xs" "xs \<noteq> []"
      and a: "\<forall>a \<in> set xs. \<not> sat a"
  shows "Done (groups m' ! g) \<and> \<not> HintOk (groups m' ! g)
       \<and> (\<exists>b \<in> set xs. Best (groups m' ! g) = Some b)
       \<and> (\<exists>cs. map fst cs = xs \<and> bestOverall (groups m' ! g) (set cs))"
proof -
  from optimizeMemoGroup_candidates [OF fx wg rk run nd ns] obtain cs where
    cs: "alternatives (Suc (length cs)) (rels m) (First (groups m ! g)) = Some (map fst cs)"
        "groups m' ! g = (updateBest_each (tiesReplace P) (hints m) (groups m ! g) cs)\<lparr>Done := True\<rparr>"
    by blast
  from alternatives_unique [OF xs(1) cs(1)] have e: "xs = map fst cs" .
  with xs(2) obtain n c cs' where c: "cs = (n, c) # cs'" by (cases cs) auto
  from a e c have ns': "\<not> sat n" "\<forall>(n, c) \<in> set cs'. \<not> sat n" by auto
  from nb nh ns'(1)
  have "bestOverall (updateBest_grp (tiesReplace P) (Some sat) (groups m ! g) n c) {(n, c)}"
    by (simp add: bestOverall_def updateBest_grp_def ExprGroup_updateBest_def)
  from overall_kept [OF this ns'(2), of "tiesReplace P"] cs(2) hs c
  have b: "bestOverall (groups m' ! g) (set cs)" "Done (groups m' ! g)"
    by (simp_all add: bestOverall_def)
  from b(1) e have "\<exists>b \<in> set xs. Best (groups m' ! g) = Some b"
    by (force simp: bestOverall_def)
  with b e show ?thesis by (auto simp: bestOverall_def)
qed

lemma exRooted_fit:
  "fixesBelow exRank exPlanner" "wellGrouped exRooted" "ranked exRank exRooted"
proof -
  show "fixesBelow exRank exPlanner"
    by (simp add: fixesBelow_def exPlanner_def sameShape_refl)
  have l: "length (groups exRooted) = 3" "length (rels exRooted) = 4"
    by (simp_all add: exRooted_def exJoin_groups exJoin_rels)
  have three: "g < 3 \<longleftrightarrow> g = 0 \<or> g = 1 \<or> g = (2::nat)" for g by auto
  have four: "a < 4 \<longleftrightarrow> a = 0 \<or> a = 1 \<or> a = 2 \<or> a = (3::nat)" for a by auto
  show "wellGrouped exRooted"
    unfolding wellGrouped_def l three four
    by (auto simp: exRooted_def exJoin_groups exJoin_rels)
  show "ranked exRank exRooted"
    unfolding ranked_def l four
    by (auto simp: exRooted_def exJoin_groups exJoin_rels exRank_def)
qed

lemma optimizeMemoGroup_hint_fidelity_example:
  "HintOk (groups exPlanned ! 2) \<and> Best (groups exPlanned ! 2) = Some 3 \<and> Done (groups exPlanned ! 2)"
proof -
  have run: "optimizeMemoGroup 9 exPlanner exRooted (Some 2) = Some (Return exPlanned)"
    by (simp add: exPlanned_def OptimizeRoot_def exRooted_def exPlanner_def eval_nat_numeral deref_def
        isSourceRel_def setGroup_def SetDistinct_def SetCost_def costAlternative_def updateBest_def
        updateBest_grp_def ExprGroup_updateBest_def IsHash_def NewMemo_def
        Let_def exJoin_groups exJoin_rels exJoin_hints)
  have nd: "\<not> Done (groups exRooted ! 2)" "\<not> HintOk (groups exRooted ! 2)"
    by (simp_all add: exRooted_def exJoin_groups)
  have ns: "\<not> (case deref (rels exRooted) (First (groups exRooted ! 2)) of
                    Some r \<Rightarrow> isSourceRel (body r) | None \<Rightarrow> False)"
    by (simp add: exRooted_def exJoin_groups exJoin_rels deref_def isSourceRel_def)
  have hs: "hints exRooted = Some (\<lambda>_. True)" by (simp add: exRooted_def exJoin_hints)
  have xs: "alternatives 2 (rels exRooted) (First (groups exRooted ! 2)) = Some [3]"
    by (simp add: exRooted_def exJoin_groups exJoin_rels eval_nat_numeral)
  from optimizeMemoGroup_hint_fidelity [OF exRooted_fit run nd(1) ns hs nd(2) xs, of 3]
  show ?thesis by simp
qed

section \<open>Building the plan needs optimized groups\<close>

text \<open>More fuel does not change a result.\<close>

lemma build_mono_step:
  "(\<forall>gp r. buildBestJoinPlan k br m gp = Some r \<longrightarrow> buildBestJoinPlan (Suc k) br m gp = Some r)
 \<and> (\<forall>gs acc r. buildChildren k br m gs acc = Some r \<longrightarrow> buildChildren (Suc k) br m gs acc = Some r)"
proof (induction k)
  case 0
  then show ?case by simp
next
  case (Suc k)
  then have ih1: "\<And>gp r. buildBestJoinPlan k br m gp = Some r \<Longrightarrow>
                     buildBestJoinPlan (Suc k) br m gp = Some r"
    and ih2: "\<And>gs acc r. buildChildren k br m gs acc = Some r \<Longrightarrow>
                     buildChildren (Suc k) br m gs acc = Some r"
    by blast+
  have a: "buildBestJoinPlan (Suc (Suc k)) br m gp = Some r"
    if h: "buildBestJoinPlan (Suc k) br m gp = Some r" for gp r
  proof (cases "deref (groups m) gp")
    case None
    with h show ?thesis by simp
  next
    case (Some grp)
    show ?thesis
    proof (cases "Done grp \<and> deref (rels m) (Best grp) \<noteq> None")
      case False
      with Some h show ?thesis by (auto split: if_splits)
    next
      case True
      then obtain n where n: "deref (rels m) (Best grp) = Some n" by auto
      from h Some True n obtain x where x: "buildChildren k br m (Children (body n)) [] = Some x"
        by (cases "buildChildren k br m (Children (body n)) []") auto
      note x' = ih2 [OF x]
      from h Some True n x
      have r: "(case x of Panic \<Rightarrow> Some Panic | Error e \<Rightarrow> Some (Error e)
                | Return children \<Rightarrow>
                    (case br m (the (Best grp)) children of Inl e \<Rightarrow> Some (Error e)
                     | Inr node \<Rightarrow> Some (Return node))) = Some r"
        by simp
      from Some True n r show ?thesis
        by (subst buildBestJoinPlan.simps(2))
           (simp del: buildChildren.simps buildBestJoinPlan.simps add: x')
    qed
  qed
  have b: "buildChildren (Suc (Suc k)) br m gs acc = Some r"
    if h: "buildChildren (Suc k) br m gs acc = Some r" for gs acc r
  proof (cases gs)
    case Nil
    with h show ?thesis by simp
  next
    case (Cons g gs')
    from h obtain y where y: "buildBestJoinPlan k br m g = Some y"
      by (cases "buildBestJoinPlan k br m g") (auto simp: Cons)
    note y' = ih1 [OF y]
    show ?thesis
    proof (cases y)
      case (Return node)
      with h y Cons have t: "buildChildren k br m gs' (acc @ [node]) = Some r" by simp
      note t' = ih2 [OF t]
      show ?thesis unfolding Cons
        by (subst buildChildren.simps(3))
           (simp del: buildChildren.simps buildBestJoinPlan.simps add: y' t' Return)
    next
      case Panic
      with h y Cons have r: "r = Panic" by simp
      show ?thesis unfolding Cons r
        by (subst buildChildren.simps(3))
           (simp del: buildChildren.simps buildBestJoinPlan.simps add: y' Panic)
    next
      case (Error e)
      with h y Cons have r: "r = Error e" by simp
      show ?thesis unfolding Cons r
        by (subst buildChildren.simps(3))
           (simp del: buildChildren.simps buildBestJoinPlan.simps add: y' Error)
    qed
  qed
  from a b show ?case by blast
qed

lemma build_mono:
  "buildBestJoinPlan k br m gp = Some r \<Longrightarrow> buildBestJoinPlan (k + j) br m gp = Some r"
proof (induction j)
  case 0
  then show ?case by simp
next
  case (Suc j)
  then show ?case using build_mono_step [of "k + j" br m] by (metis add_Suc_right)
qed

lemma buildChildren_mono:
  "buildChildren k br m gs acc = Some rs \<Longrightarrow> buildChildren (k + j) br m gs acc = Some rs"
proof (induction j)
  case 0
  then show ?case by simp
next
  case (Suc j)
  then show ?case using build_mono_step [of "k + j" br m] by (metis add_Suc_right)
qed

lemma build_mono_le:
  "buildBestJoinPlan k br m gp = Some r \<Longrightarrow> k \<le> k' \<Longrightarrow> buildBestJoinPlan k' br m gp = Some r"
  using build_mono [of k br m gp r "k' - k"] by simp

lemma buildChildren_mono_le:
  "buildChildren k br m gs acc = Some rs \<Longrightarrow> k \<le> k' \<Longrightarrow> buildChildren k' br m gs acc = Some rs"
  using buildChildren_mono [of k br m gs acc rs "k' - k"] by simp




lemma those_map_Some:
  "(\<And>x. x \<in> set xs \<Longrightarrow> \<exists>y. f x = Some y) \<Longrightarrow> \<exists>ys. those (map f xs) = Some ys"
proof (induction xs)
  case Nil
  then show ?case by simp
next
  case (Cons x xs)
  then obtain y ys where "f x = Some y" "those (map f xs) = Some ys" by (meson list.set_intros)
  then show ?case by simp
qed

lemma bestTreeOf_exists:
  "\<forall>g. bestTreeWithin d m (Some g) \<longrightarrow> (\<forall>h. reachable m g h \<longrightarrow> \<not> notDone m h) \<longrightarrow>
      (\<exists>t. bestTreeOf d m (Some g) = Some t)"
proof (induction d)
  case 0
  then show ?case by simp
next
  case (Suc d)
  show ?case
  proof (intro allI impI)
    fix g
    assume w: "bestTreeWithin (Suc d) m (Some g)" and a: "\<forall>h. reachable m g h \<longrightarrow> \<not> notDone m h"
    from w obtain grp where grp: "deref (groups m) (Some g) = Some grp"
      by (auto split: option.splits)
    from a reachable.here [of m g] grp have dn: "Done grp"
      by (auto simp: notDone_def deref_def split: if_splits)
    with w grp obtain n where n: "deref (rels m) (Best grp) = Some n"
        "list_all (bestTreeWithin d m) (Children (body n))"
      by (auto split: option.splits)
    have "\<exists>y. bestTreeOf d m x = Some y" if x: "x \<in> set (Children (body n))" for x
    proof -
      from n(2) x have wx: "bestTreeWithin d m x" by (simp add: list_all_iff)
      then obtain c where c: "x = Some c" by (cases d; cases x) (auto simp: deref_def)
      have "\<forall>h. reachable m c h \<longrightarrow> \<not> notDone m h"
        using a reachable.child [OF grp n(1)] x c by blast
      with Suc wx c show ?thesis by blast
    qed
    from those_map_Some [of "Children (body n)" "bestTreeOf d m", OF this]
    obtain ts where "those (map (bestTreeOf d m) (Children (body n))) = Some ts" by blast
    with grp dn n(1) show "\<exists>t. bestTreeOf (Suc d) m (Some g) = Some t" by simp
  qed
qed

lemma build_tree:
  "\<forall>gp t. bestTreeOf d m gp = Some t \<longrightarrow>
      (\<exists>k. buildBestJoinPlan k br m gp = Some (toResult (buildTree br m t)))"
proof (induction d)
  case 0
  then show ?case by simp
next
  case (Suc d)
  have ch: "\<exists>k. buildChildren k br m gs acc =
              Some (case buildTrees br m ts of Inl e \<Rightarrow> Error e | Inr ns \<Rightarrow> Return (acc @ ns))"
    if "those (map (bestTreeOf d m) gs) = Some ts" for gs ts acc
    using that
  proof (induction gs arbitrary: ts acc)
    case Nil
    then have "buildChildren (Suc 0) br m [] acc =
                 Some (case buildTrees br m ts of Inl e \<Rightarrow> Error e | Inr ns \<Rightarrow> Return (acc @ ns))"
      by simp
    then show ?case by blast
  next
    case (Cons g0 gs)
    then obtain t0 ts' where t0: "bestTreeOf d m g0 = Some t0"
        "those (map (bestTreeOf d m) gs) = Some ts'" "ts = t0 # ts'"
      by (auto split: option.splits)
    from Suc t0(1) obtain k where k: "buildBestJoinPlan k br m g0 = Some (toResult (buildTree br m t0))"
      by blast
    show ?case
    proof (cases "buildTree br m t0")
      case (Inl e)
      with k t0(3) have "buildChildren (Suc k) br m (g0 # gs) acc =
          Some (case buildTrees br m ts of Inl e \<Rightarrow> Error e | Inr ns \<Rightarrow> Return (acc @ ns))"
        by (simp add: toResult_def)
      then show ?thesis by blast
    next
      case (Inr node)
      from Cons.IH [OF t0(2), of "acc @ [node]"] obtain k2 where
        k2: "buildChildren k2 br m gs (acc @ [node]) =
               Some (case buildTrees br m ts' of Inl e \<Rightarrow> Error e
                     | Inr ns \<Rightarrow> Return ((acc @ [node]) @ ns))" by blast
      have "buildBestJoinPlan (max k k2) br m g0 = Some (Return node)"
        using k Inr by (auto intro: build_mono_le simp: toResult_def)
      moreover have "buildChildren (max k k2) br m gs (acc @ [node]) =
               Some (case buildTrees br m ts' of Inl e \<Rightarrow> Error e
                     | Inr ns \<Rightarrow> Return ((acc @ [node]) @ ns))"
        using k2 by (auto intro: buildChildren_mono_le)
      ultimately have "buildChildren (Suc (max k k2)) br m (g0 # gs) acc =
          Some (case buildTrees br m ts of Inl e \<Rightarrow> Error e | Inr ns \<Rightarrow> Return (acc @ ns))"
        using Inr t0(3) by (simp split: sum.splits)
      then show ?thesis by blast
    qed
  qed
  show ?case
  proof (intro allI impI)
    fix gp t
    assume t: "bestTreeOf (Suc d) m gp = Some t"
    then obtain grp n ts where g: "deref (groups m) gp = Some grp" "Done grp"
        "deref (rels m) (Best grp) = Some n"
        "those (map (bestTreeOf d m) (Children (body n))) = Some ts"
        "t = BestTree (the (Best grp)) ts"
      by (auto split: option.splits if_splits)
    from ch [OF g(4), of "[]"] have "\<exists>k. buildChildren k br m (Children (body n)) [] =
         Some (case buildTrees br m ts of Inl e \<Rightarrow> Error e | Inr ns \<Rightarrow> Return ns)"
      by (simp cong: sum.case_cong)
    then obtain k where
      "buildChildren k br m (Children (body n)) [] =
         Some (case buildTrees br m ts of Inl e \<Rightarrow> Error e | Inr ns \<Rightarrow> Return ns)" by blast
    with g have "buildBestJoinPlan (Suc k) br m gp = Some (toResult (buildTree br m t))"
      by (simp add: toResult_def split: sum.splits)
    then show "\<exists>k. buildBestJoinPlan k br m gp = Some (toResult (buildTree br m t))" by blast
  qed
qed








section \<open>Optimizing leaves a memo fit for reification\<close>

text \<open>The state that \<open>fitMemo\<close> describes is kept by every step of
  \<open>optimizeMemoGroup\<close>, and the group it returns from is done.\<close>

lemma keepsDone_refl: "keepsDone m m"
  by (simp add: keepsDone_def)

lemma keepsDone_trans: "keepsDone m m1 \<Longrightarrow> keepsDone m1 m2 \<Longrightarrow> keepsDone m m2"
  by (simp add: keepsDone_def)

lemma fit_rels:
  assumes "fitMemo m" and "sameShape m m'" and "groups m' = groups m"
  shows "fitMemo m'"
  using assms unfolding fitMemo_def sameShape_def by simp

lemma fit_update_group:
  assumes f: "fitMemo m" and g: "g < length (groups m)"
      and fi: "First grp = First (groups m ! g)"
      and dm: "Done (groups m ! g) \<longrightarrow> Done grp"
      and db: "Done grp \<longrightarrow> Best grp \<noteq> None"
      and b: "\<forall>b. Best grp = Some b \<longrightarrow>
                b < length (rels m) \<and> relG (rels m ! b) = Some g
              \<and> (\<forall>c \<in> set (Children (body (rels m ! b))).
                   \<exists>c'. c = Some c' \<and> c' < length (groups m) \<and> Done (groups m ! c'))"
  shows "fitMemo (setGroup m g grp)" and "keepsDone m (setGroup m g grp)"
proof -
  let ?m = "setGroup m g grp"
  have l: "length (groups ?m) = length (groups m)" "rels ?m = rels m"
    by (simp_all add: setGroup_def)
  have n: "groups ?m ! h = (if h = g then grp else groups m ! h)" if "h < length (groups m)" for h
    using that by (simp add: setGroup_def nth_list_update)
  have d: "Done (groups ?m ! h)" if "h < length (groups m)" "Done (groups m ! h)" for h
    using that dm by (auto simp: n)
  show "keepsDone m ?m" using d by (simp add: keepsDone_def l)
  have ch: "\<forall>c \<in> set cs. \<exists>c'. c = Some c' \<and> c' < length (groups ?m) \<and> Done (groups ?m ! c')"
    if "\<forall>c \<in> set cs. \<exists>c'. c = Some c' \<and> c' < length (groups m) \<and> Done (groups m ! c')" for cs
    using that d l by metis
  have A: "\<exists>f. First (groups ?m ! h) = Some f \<and> f < length (rels m)"
    if "h < length (groups m)" for h
    using f that fi by (auto simp: n fitMemo_def)
  have B: "Best (groups ?m ! h) \<noteq> None" if "h < length (groups m)" "Done (groups ?m ! h)" for h
    using that f db by (auto simp: n fitMemo_def split: if_splits)
  have C: "bb < length (rels m) \<and> relG (rels m ! bb) = Some h
        \<and> (\<forall>c \<in> set (Children (body (rels m ! bb))).
             \<exists>c'. c = Some c' \<and> c' < length (groups m) \<and> Done (groups ?m ! c'))"
    if h: "h < length (groups m)" and bb: "Best (groups ?m ! h) = Some bb" for h bb
  proof -
    have "bb < length (rels m) \<and> relG (rels m ! bb) = Some h
        \<and> (\<forall>c \<in> set (Children (body (rels m ! bb))).
             \<exists>c'. c = Some c' \<and> c' < length (groups m) \<and> Done (groups m ! c'))"
      using f h bb b by (auto simp: n fitMemo_def split: if_splits)
    with ch [of "Children (body (rels m ! bb))"] show ?thesis using l by simp
  qed
  have D: "bb < length (rels m)" if "a < length (rels m)" "relN (rels m ! a) = Some bb" for a bb
    using that f by (auto simp: fitMemo_def)
  show "fitMemo ?m"
    unfolding fitMemo_def l using A B C D by blast
qed

lemma updateBest_grp_keeps:
  "Done (updateBest_grp ties hs grp n c) = Done grp"
  "Best (updateBest_grp ties hs grp n c) \<noteq> None"
  "Best (updateBest_grp ties hs grp n c) = Some n \<or> Best (updateBest_grp ties hs grp n c) = Best grp"
  by (auto simp: updateBest_grp_def ExprGroup_updateBest_def split: option.splits)

lemma costAlternative_split:
  "\<exists>mid c. groups mid = groups m \<and> sameShape m mid
      \<and> costAlternative P m g n cost relCost
          = setGroup mid g (updateBest_grp (tiesReplace P) (hints m) (groups m ! g) n c)"
proof -
  have a: "updateBest ties (SetCost (SetDistinct m n dd) n co) g n c
         = setGroup (SetCost (SetDistinct m n dd) n co) g
             (updateBest_grp ties (hints m) (groups m ! g) n c)" for ties dd co c
    by (simp add: updateBest_def setGroup_def)
  have b: "groups (SetCost (SetDistinct m n dd) n co) = groups m"
    "sameShape m (SetCost (SetDistinct m n dd) n co)" for dd co
    by (simp_all add: sameShape_trans [OF sameShape_SetDistinct sameShape_SetCost])
  show ?thesis
    unfolding costAlternative_def Let_def
    by (auto simp: a split: if_splits prod.splits intro!: exI b)
qed

lemma source_no_children: "isSourceRel e \<Longrightarrow> Children e = []"
  by (cases e) (auto simp: isSourceRel_def)

lemma indexScan_no_children: "isIndexScan e \<Longrightarrow> Children e = []"
  by (cases e) auto

lemma rank_bound: "\<exists>r. \<forall>c. Some c \<in> set cs \<longrightarrow> rank c < (r::nat)"
proof (induction cs)
  case Nil
  then show ?case by simp
next
  case (Cons x cs)
  then obtain r where r: "\<forall>c. Some c \<in> set cs \<longrightarrow> rank c < r" by blast
  show ?case
  proof (cases x)
    case None
    with r show ?thesis by auto
  next
    case (Some y)
    have "\<forall>c. Some c \<in> set (x # cs) \<longrightarrow> rank c < max r (Suc (rank y))"
      using r Some by (auto simp: less_max_iff_disj)
    then show ?thesis by blast
  qed
qed

lemma firstIndexScan_on_list:
  assumes wg: "wellGrouped m"
      and vp: "\<forall>a < length (rels m). \<forall>b. relN (rels m ! a) = Some b \<longrightarrow> b < length (rels m)"
  shows "firstIndexScan k (rels m) n = Some (Some a) \<Longrightarrow>
         (\<forall>x. n = Some x \<longrightarrow> x < length (rels m) \<and> relG (rels m ! x) = Some g) \<Longrightarrow>
         a < length (rels m) \<and> relG (rels m ! a) = Some g \<and> isIndexScan (body (rels m ! a))"
proof (induction k arbitrary: n)
  case 0
  then show ?case by simp
next
  case (Suc k)
  show ?case
  proof (cases n)
    case None
    with Suc.prems show ?thesis by simp
  next
    case (Some x)
    with Suc.prems(2) have x: "x < length (rels m)" "relG (rels m ! x) = Some g" by simp_all
    show ?thesis
    proof (cases "isIndexScan (body (rels m ! x))")
      case True
      with Suc.prems(1) Some x show ?thesis by simp
    next
      case False
      with Suc.prems(1) Some have r: "firstIndexScan k (rels m) (relN (rels m ! x)) = Some (Some a)"
        by simp
      have "\<forall>y. relN (rels m ! x) = Some y \<longrightarrow> y < length (rels m) \<and> relG (rels m ! y) = Some g"
        using wg vp x by (auto simp: wellGrouped_def)
      from Suc.IH [OF r this] show ?thesis .
    qed
  qed
qed

lemma costAlternative_fit:
  assumes f: "fitMemo m" and g: "g < length (groups m)" and a: "a < length (rels m)"
      and og: "relG (rels m ! a) = Some g"
      and ch: "\<forall>c \<in> set (Children (body (rels m ! a))).
                 \<exists>c'. c = Some c' \<and> c' < length (groups m) \<and> Done (groups m ! c')"
  shows "fitMemo (costAlternative P m g a cost relCost)"
    and "keepsDone m (costAlternative P m g a cost relCost)"
    and "Best (groups (costAlternative P m g a cost relCost) ! g) \<noteq> None"
proof -
  from costAlternative_split [of m P g a cost relCost] obtain mid c where
    mid: "groups mid = groups m" "sameShape m mid"
         "costAlternative P m g a cost relCost
            = setGroup mid g (updateBest_grp (tiesReplace P) (hints m) (groups m ! g) a c)"
    by blast
  let ?grp = "updateBest_grp (tiesReplace P) (hints m) (groups m ! g) a c"
  have fm: "fitMemo mid" using fit_rels [OF f mid(2,1)] .
  have gm: "g < length (groups mid)" using g mid(1) by simp
  have sh: "length (rels mid) = length (rels m)" "relG (rels mid ! x) = relG (rels m ! x)"
    "body (rels mid ! x) = body (rels m ! x)" for x
    using mid(2) by (simp_all add: sameShape_def)
  have b: "\<forall>b. Best ?grp = Some b \<longrightarrow>
              b < length (rels mid) \<and> relG (rels mid ! b) = Some g
            \<and> (\<forall>c \<in> set (Children (body (rels mid ! b))).
                 \<exists>c'. c = Some c' \<and> c' < length (groups mid) \<and> Done (groups mid ! c'))"
  proof (intro allI impI)
    fix b assume bb: "Best ?grp = Some b"
    from updateBest_grp_keeps(3) [of "tiesReplace P" "hints m" "groups m ! g" a c] bb
    have "b = a \<or> Best (groups m ! g) = Some b" by auto
    then show "b < length (rels mid) \<and> relG (rels mid ! b) = Some g
            \<and> (\<forall>c \<in> set (Children (body (rels mid ! b))).
                 \<exists>c'. c = Some c' \<and> c' < length (groups mid) \<and> Done (groups mid ! c'))"
    proof
      assume "b = a"
      with a og ch show ?thesis by (simp add: sh mid(1))
    next
      assume "Best (groups m ! g) = Some b"
      with f g show ?thesis unfolding fitMemo_def by (simp add: sh mid(1))
    qed
  qed
  have r: "fitMemo (setGroup mid g ?grp)" "keepsDone mid (setGroup mid g ?grp)"
    by (rule fit_update_group [OF fm gm _ _ _ b];
        simp add: mid(1) updateBest_grp_shape updateBest_grp_keeps)+
  from r(1) show "fitMemo (costAlternative P m g a cost relCost)" by (simp add: mid(3))
  from r(2) show "keepsDone m (costAlternative P m g a cost relCost)"
    by (simp add: mid(3) keepsDone_def mid(1))
  show "Best (groups (costAlternative P m g a cost relCost) ! g) \<noteq> None"
    using gm by (simp add: mid(3) setGroup_def updateBest_grp_keeps)
qed

lemma optimize_fit:
  assumes fx: "fixesBelow rank P" and ff: "fixesFit P"
  shows
  "(\<forall>m g m'. optimizeMemoGroup k P m (Some g) = Some (Return m') \<longrightarrow> fitMemo m \<longrightarrow>
       wellGrouped m \<longrightarrow> ranked rank m \<longrightarrow>
       fitMemo m' \<and> keepsDone m m' \<and> Done (groups m' ! g))
 \<and> (\<forall>m g n m'. optimizeAlts k P m g n = Some (Return m') \<longrightarrow> fitMemo m \<longrightarrow> wellGrouped m \<longrightarrow>
       ranked rank m \<longrightarrow> g < length (groups m) \<longrightarrow>
       (\<forall>a. n = Some a \<longrightarrow> relG (rels m ! a) = Some g) \<longrightarrow>
       fitMemo m' \<and> keepsDone m m'
       \<and> ((n \<noteq> None \<or> Best (groups m ! g) \<noteq> None) \<longrightarrow> Best (groups m' ! g) \<noteq> None))
 \<and> (\<forall>m cs cost m' cost'. optimizeChildren k P m cs cost = Some (Return (m', cost')) \<longrightarrow>
       fitMemo m \<longrightarrow> wellGrouped m \<longrightarrow> ranked rank m \<longrightarrow>
       fitMemo m' \<and> keepsDone m m'
       \<and> (\<forall>c \<in> set cs. \<exists>c'. c = Some c' \<and> c' < length (groups m') \<and> Done (groups m' ! c')))"
proof (induction k)
  case 0
  then show ?case by simp
next
  case (Suc k)
  then have ih1: "\<And>m g m'. optimizeMemoGroup k P m (Some g) = Some (Return m') \<Longrightarrow> fitMemo m \<Longrightarrow>
       wellGrouped m \<Longrightarrow> ranked rank m \<Longrightarrow>
       fitMemo m' \<and> keepsDone m m' \<and> Done (groups m' ! g)"
    and ih2: "\<And>m g n m'. optimizeAlts k P m g n = Some (Return m') \<Longrightarrow> fitMemo m \<Longrightarrow>
       wellGrouped m \<Longrightarrow> ranked rank m \<Longrightarrow> g < length (groups m) \<Longrightarrow>
       (\<forall>a. n = Some a \<longrightarrow> relG (rels m ! a) = Some g) \<Longrightarrow>
       fitMemo m' \<and> keepsDone m m'
       \<and> ((n \<noteq> None \<or> Best (groups m ! g) \<noteq> None) \<longrightarrow> Best (groups m' ! g) \<noteq> None)"
    and ih3: "\<And>m cs cost m' cost'. optimizeChildren k P m cs cost = Some (Return (m', cost')) \<Longrightarrow>
       fitMemo m \<Longrightarrow> wellGrouped m \<Longrightarrow> ranked rank m \<Longrightarrow>
       fitMemo m' \<and> keepsDone m m'
       \<and> (\<forall>c \<in> set cs. \<exists>c'. c = Some c' \<and> c' < length (groups m') \<and> Done (groups m' ! c'))"
    by blast+
  note frame = optimize_frame [OF fx, of k]
  have fr1: "sameShape m m'"
    if "optimizeMemoGroup k P m (Some g) = Some (Return m')" "wellGrouped m" "ranked rank m"
    for m g m'
    using frame that by blast
  have fr2: "sameShape m m'"
    if "optimizeAlts k P m g n = Some (Return m')" "wellGrouped m" "ranked rank m"
       "g < length (groups m)" "\<forall>a. n = Some a \<longrightarrow> relG (rels m ! a) = Some g"
    for m g n m'
    using frame that by blast
  have fr3: "sameShape m m' \<and> (\<forall>h. r \<le> rank h \<longrightarrow> groups m' ! h = groups m ! h)"
    if "optimizeChildren k P m cs cost = Some (Return (m', cost'))" "wellGrouped m" "ranked rank m"
       "\<forall>c. Some c \<in> set cs \<longrightarrow> rank c < r"
    for m cs cost m' cost' r
    using frame that by blast
  have f3: "fitMemo m' \<and> keepsDone m m'
       \<and> (\<forall>c \<in> set cs. \<exists>c'. c = Some c' \<and> c' < length (groups m') \<and> Done (groups m' ! c'))"
    if run: "optimizeChildren (Suc k) P m cs cost = Some (Return (m', cost'))"
      and f: "fitMemo m" and wg: "wellGrouped m" and rk: "ranked rank m"
    for m cs cost m' cost'
  proof (cases cs)
    case Nil
    with run f show ?thesis by (simp add: keepsDone_refl)
  next
    case (Cons c cs')
    from run Cons obtain m1 where m1: "optimizeMemoGroup k P m c = Some (Return m1)"
        "optimizeChildren k P m1 cs' (cost + Cost (groups m1 ! the c)) = Some (Return (m', cost'))"
      by (auto split: option.splits result.splits)
    then obtain g where g: "c = Some g"
      by (cases k; cases c) (auto simp: deref_def)
    from m1(1) g have gv: "g < length (groups m)"
      by (cases k) (auto simp: deref_def split: if_splits)
    note s1 = fr1 [OF m1(1) [unfolded g] wg rk]
    from ih1 [OF m1(1) [unfolded g] f wg rk]
    have a: "fitMemo m1" "keepsDone m m1" "Done (groups m1 ! g)" by blast+
    from ih3 [OF m1(2) a(1) sameShape_wellGrouped [OF s1 wg] sameShape_ranked [OF s1 rk]]
    have b: "fitMemo m'" "keepsDone m1 m'"
      "\<forall>c \<in> set cs'. \<exists>c'. c = Some c' \<and> c' < length (groups m') \<and> Done (groups m' ! c')"
      by blast+
    have "g < length (groups m') \<and> Done (groups m' ! g)"
      using a(2,3) b(2) gv by (simp add: keepsDone_def)
    with b keepsDone_trans [OF a(2) b(2)] Cons g show ?thesis by simp
  qed
  have f2: "fitMemo m' \<and> keepsDone m m'
       \<and> ((n \<noteq> None \<or> Best (groups m ! g) \<noteq> None) \<longrightarrow> Best (groups m' ! g) \<noteq> None)"
    if run: "optimizeAlts (Suc k) P m g n = Some (Return m')"
      and f: "fitMemo m" and wg: "wellGrouped m" and rk: "ranked rank m"
      and gv: "g < length (groups m)"
      and own: "\<forall>a. n = Some a \<longrightarrow> relG (rels m ! a) = Some g"
    for m g n m'
  proof (cases n)
    case None
    with run f show ?thesis by (simp add: keepsDone_refl)
  next
    case (Some a)
    from run Some have av: "a < length (rels m)"
      by (auto simp: deref_def split: if_splits)
    let ?r = "rels m ! a"
    from run Some av obtain m1 cost relCost where
      ch: "optimizeChildren k P m (Children (body ?r)) 0 = Some (Return (m1, cost))"
      and ec: "EstimateCost P m1 a = Inr relCost"
      and rest: "optimizeAlts k P (costAlternative P m1 g a cost relCost) g
                   (relN (rels (costAlternative P m1 g a cost relCost) ! a)) = Some (Return m')"
      by (auto simp: deref_def Let_def split: option.splits result.splits sum.splits)
    from own Some have og: "relG ?r = Some g" by simp
    from rk av og have lo: "\<forall>c. Some c \<in> set (Children (body ?r)) \<longrightarrow> rank c < rank g"
      by (auto simp: ranked_def)
    from fr3 [OF ch wg rk lo]
    have a1: "sameShape m m1" "\<forall>h. rank g \<le> rank h \<longrightarrow> groups m1 ! h = groups m ! h" by blast+
    from ih3 [OF ch f wg rk]
    have b1: "fitMemo m1" "keepsDone m m1"
      "\<forall>c \<in> set (Children (body ?r)). \<exists>c'. c = Some c' \<and> c' < length (groups m1) \<and> Done (groups m1 ! c')"
      by blast+
    have sh1: "length (groups m1) = length (groups m)" "length (rels m1) = length (rels m)"
      "relG (rels m1 ! a) = relG ?r" "body (rels m1 ! a) = body ?r"
      using a1(1) by (simp_all add: sameShape_def)
    let ?m2 = "costAlternative P m1 g a cost relCost"
    have p1: "g < length (groups m1)" "a < length (rels m1)" "relG (rels m1 ! a) = Some g"
      using sh1 gv av og by simp_all
    have p2: "\<forall>c \<in> set (Children (body (rels m1 ! a))).
                \<exists>c'. c = Some c' \<and> c' < length (groups m1) \<and> Done (groups m1 ! c')"
      using b1(3) sh1(4) by simp
    note c2 = costAlternative_fit [OF b1(1) p1 p2, of P cost relCost]
    have s12: "sameShape m1 ?m2" by (rule costAlternative_shape)
    note s2 = sameShape_trans [OF a1(1) s12]
    have gv2: "g < length (groups ?m2)" using s2 gv by (simp add: sameShape_def)
    have own2: "\<forall>b. relN (rels ?m2 ! a) = Some b \<longrightarrow> relG (rels ?m2 ! b) = Some g"
      using wg av og s2 by (auto simp: wellGrouped_def sameShape_def)
    from ih2 [OF rest c2(1) sameShape_wellGrouped [OF s2 wg] sameShape_ranked [OF s2 rk] gv2 own2]
      c2(3)
    have d: "fitMemo m'" "keepsDone ?m2 m'" "Best (groups m' ! g) \<noteq> None" by blast+
    from d keepsDone_trans [OF keepsDone_trans [OF b1(2) c2(2)] d(2)] show ?thesis by simp
  qed
  have f1: "fitMemo m' \<and> keepsDone m m' \<and> Done (groups m' ! g)"
    if run: "optimizeMemoGroup (Suc k) P m (Some g) = Some (Return m')"
      and f: "fitMemo m" and wg: "wellGrouped m" and rk: "ranked rank m"
    for m g m'
  proof -
    from run have gv: "g < length (groups m)"
      by (auto simp: deref_def split: if_splits)
    let ?grp = "groups m ! g"
    from f gv obtain fst0 where fst0: "First ?grp = Some fst0" "fst0 < length (rels m)"
      by (auto simp: fitMemo_def)
    from wg gv fst0 have fg: "relG (rels m ! fst0) = Some g" by (simp add: wellGrouped_def)
    from f have vp: "\<forall>a < length (rels m). \<forall>b. relN (rels m ! a) = Some b \<longrightarrow> b < length (rels m)"
      by (simp add: fitMemo_def)
    show ?thesis
    proof (cases "Done ?grp")
      case True
      with run gv have "m' = m" by (simp add: deref_def)
      with f True show ?thesis by (simp add: keepsDone_refl)
    next
      case nd: False
      show ?thesis
      proof (cases "isSourceRel (body (rels m ! fst0))")
        case True
        let ?m1 = "setGroup m g (?grp\<lparr>Done := True, HintOk := True, Best := First ?grp\<rparr>)"
        have r1: "rels (setGroup m g x) = rels m" for x by (simp add: setGroup_def)
        from run gv nd True fst0 obtain found where
          fi: "firstIndexScan k (rels m) (Some fst0) = Some found"
          by (cases "firstIndexScan k (rels m) (Some fst0)")
             (auto simp: deref_def Let_def r1)
        define b where "b = (case found of Some a \<Rightarrow> a | None \<Rightarrow> fst0)"
        let ?g' = "?grp\<lparr>Done := True, HintOk := True, Best := Some b\<rparr>"
        from run gv nd True fst0 fi have
          m': "m' = SetDistinct (setGroup m g ?g') b noDistinctOp"
          by (cases found) (simp_all add: deref_def Let_def r1 b_def setGroup_def)
        have bv: "b < length (rels m) \<and> relG (rels m ! b) = Some g
                  \<and> Children (body (rels m ! b)) = []"
        proof (cases found)
          case None
          with fst0 fg True show ?thesis by (simp add: b_def source_no_children)
        next
          case (Some a)
          from firstIndexScan_on_list [OF wg vp fi [unfolded Some], of g] fst0 fg
          show ?thesis by (simp add: b_def Some indexScan_no_children)
        qed
        have q: "First ?g' = First ?grp" "Done ?grp \<longrightarrow> Done ?g'" "Done ?g' \<longrightarrow> Best ?g' \<noteq> None"
          "\<forall>x. Best ?g' = Some x \<longrightarrow>
                x < length (rels m) \<and> relG (rels m ! x) = Some g
              \<and> (\<forall>c \<in> set (Children (body (rels m ! x))).
                   \<exists>c'. c = Some c' \<and> c' < length (groups m) \<and> Done (groups m ! c'))"
          using bv by simp_all
        note u = fit_update_group [OF f gv q]
        have "fitMemo m'" unfolding m'
          by (rule fit_rels [OF u(1) sameShape_SetDistinct]) simp
        moreover have "keepsDone m m'" using u(2) unfolding m' by (simp add: keepsDone_def)
        moreover have "Done (groups m' ! g)" using gv unfolding m' by (simp add: setGroup_def)
        ultimately show ?thesis by blast
      next
        case False
        from run gv nd False fst0 obtain m1 where
          al: "optimizeAlts k P m g (First ?grp) = Some (Return m1)"
          and m': "m' = setGroup (fixConflicts P m1 g) g ((groups (fixConflicts P m1 g) ! g)\<lparr>Done := True\<rparr>)"
          by (auto simp: deref_def Let_def split: option.splits result.splits)
        from wg gv have own: "\<forall>a. First ?grp = Some a \<longrightarrow> relG (rels m ! a) = Some g"
          by (simp add: wellGrouped_def)
        from ih2 [OF al f wg rk gv own] fst0
        have a1: "fitMemo m1" "keepsDone m m1" "Best (groups m1 ! g) \<noteq> None" by simp_all
        let ?m2 = "fixConflicts P m1 g"
        from ff a1(1) have a2: "fitMemo ?m2" "keepsDone m1 ?m2" by (simp_all add: fixesFit_def)
        from fx have a3: "groups ?m2 ! g = groups m1 ! g" by (simp add: fixesBelow_def)
        have gv2: "g < length (groups ?m2)" using a1(2) a2(2) gv by (simp add: keepsDone_def)
        have bb: "\<forall>b. Best (groups ?m2 ! g) = Some b \<longrightarrow>
                b < length (rels ?m2) \<and> relG (rels ?m2 ! b) = Some g
              \<and> (\<forall>c \<in> set (Children (body (rels ?m2 ! b))).
                   \<exists>c'. c = Some c' \<and> c' < length (groups ?m2) \<and> Done (groups ?m2 ! c'))"
          using a2(1) gv2 unfolding fitMemo_def by blast
        let ?g' = "(groups ?m2 ! g)\<lparr>Done := True\<rparr>"
        have q: "First ?g' = First (groups ?m2 ! g)" "Done (groups ?m2 ! g) \<longrightarrow> Done ?g'"
          "Done ?g' \<longrightarrow> Best ?g' \<noteq> None"
          "\<forall>b. Best ?g' = Some b \<longrightarrow>
                b < length (rels ?m2) \<and> relG (rels ?m2 ! b) = Some g
              \<and> (\<forall>c \<in> set (Children (body (rels ?m2 ! b))).
                   \<exists>c'. c = Some c' \<and> c' < length (groups ?m2) \<and> Done (groups ?m2 ! c'))"
          using bb a3 a1(3) by simp_all
        have u: "fitMemo m'" "keepsDone ?m2 m'" unfolding m'
          using fit_update_group [OF a2(1) gv2 q] by simp_all
        have "Done (groups m' ! g)" using gv2 unfolding m' by (simp add: setGroup_def)
        with u keepsDone_trans [OF keepsDone_trans [OF a1(2) a2(2)] u(2)] show ?thesis by blast
      qed
    qed
  qed
  from f1 f2 f3 show ?case by blast
qed

lemma bestTreeWithin_mono:
  "bestTreeWithin d m gp \<Longrightarrow> d \<le> d' \<Longrightarrow> bestTreeWithin d' m gp"
proof (induction d arbitrary: d' gp)
  case 0
  then show ?case by simp
next
  case (Suc d)
  from Suc.prems(2) obtain e where e: "d' = Suc e" "d \<le> e" by (cases d') auto
  from Suc.prems(1) Suc.IH [of _ e] e(2) show ?case
    unfolding e(1)
    by (auto simp: list_all_iff split: option.splits)
qed

text \<open>In that state, on a DAG, the memo below every group is fit for reification, and
  below a group that is done every group is done.\<close>

lemma fit_bestTree:
  assumes f: "fitMemo m" and rk: "ranked rank m"
  shows "g < length (groups m) \<Longrightarrow> bestTreeWithin (Suc (rank g)) m (Some g)"
proof (induction "rank g" arbitrary: g rule: less_induct)
  case less
  let ?grp = "groups m ! g"
  show ?case
  proof (cases "Done ?grp")
    case False
    with less.prems show ?thesis by (simp add: deref_def)
  next
    case True
    with f less.prems obtain b where b: "Best ?grp = Some b" "b < length (rels m)"
        "relG (rels m ! b) = Some g"
        "\<forall>c \<in> set (Children (body (rels m ! b))).
            \<exists>c'. c = Some c' \<and> c' < length (groups m) \<and> Done (groups m ! c')"
      unfolding fitMemo_def by blast
    have "bestTreeWithin (rank g) m c" if c: "c \<in> set (Children (body (rels m ! b)))" for c
    proof -
      from b(4) c obtain c' where c': "c = Some c'" "c' < length (groups m)" by blast
      from rk b(2,3) c c' have lt: "rank c' < rank g" by (auto simp: ranked_def)
      from less.hyps [OF lt c'(2)] have "bestTreeWithin (Suc (rank c')) m (Some c')" .
      from bestTreeWithin_mono [OF this] lt c' show ?thesis by simp
    qed
    with less.prems True b show ?thesis by (simp add: deref_def list_all_iff)
  qed
qed

lemma fit_reachable_done:
  assumes f: "fitMemo m"
  shows "reachable m g h \<Longrightarrow> g < length (groups m) \<Longrightarrow> Done (groups m ! g) \<Longrightarrow>
         h < length (groups m) \<and> Done (groups m ! h)"
proof (induction rule: reachable.induct)
  case (here g)
  then show ?case by simp
next
  case (child g grp n c h)
  from child.hyps(1) child.prems(1) have grp: "grp = groups m ! g" by (simp add: deref_def)
  from child.hyps(2) obtain b where b: "Best grp = Some b" "b < length (rels m)" "n = rels m ! b"
    by (cases "Best grp") (auto simp: deref_def split: if_splits)
  from f child.prems(1) b grp child.hyps(3)
  have "c < length (groups m) \<and> Done (groups m ! c)"
    unfolding fitMemo_def by blast
  with child.IH show ?case by blast
qed

text \<open>
  So the proviso of claim C10 is what a call of \<open>optimizeMemoGroup\<close> that returns
  establishes: the memo below the group is fit for reification, and no group reachable
  from it is left not done.
\<close>

lemma optimizeMemoGroup_bestTree:
  assumes fx: "fixesBelow rank P" and ff: "fixesFit P"
      and f: "fitMemo m" and wg: "wellGrouped m" and rk: "ranked rank m"
      and run: "optimizeMemoGroup k P m (Some g) = Some (Return m')"
  shows "bestTreeWithin (Suc (rank g)) m' (Some g) \<and> (\<forall>h. reachable m' g h \<longrightarrow> \<not> notDone m' h)"
proof -
  from run have gv: "g < length (groups m)"
    by (cases k) (auto simp: deref_def split: if_splits)
  from optimize_fit [OF fx ff, of k] run f wg rk
  have a: "fitMemo m'" "keepsDone m m'" "Done (groups m' ! g)" by blast+
  from optimize_frame [OF fx, of k] run wg rk have s: "sameShape m m'" by blast
  from gv a(2) have gv': "g < length (groups m')" by (simp add: keepsDone_def)
  from fit_bestTree [OF a(1) sameShape_ranked [OF s rk] gv']
  have "bestTreeWithin (Suc (rank g)) m' (Some g)" .
  moreover have "\<not> notDone m' h" if "reachable m' g h" for h
    using fit_reachable_done [OF a(1) that gv' a(3)] by (simp add: notDone_def)
  ultimately show ?thesis by blast
qed

text \<open>After \<open>OptimizeRoot\<close> has returned, \<open>BestRootPlan\<close> returns what the traversal
  of the tree of best expressions builds: the error for a group that is not done does
  not arise then. (The optimizer of memo.go does not write the root; \<open>fixConflicts\<close>
  is a parameter, so that the root is still the root is a premise.)\<close>

lemma OptimizeRoot_BestRootPlan:
  assumes fx: "fixesBelow rank P" and ff: "fixesFit P"
      and f: "fitMemo m" and wg: "wellGrouped m" and rk: "ranked rank m"
      and rt: "root m = Some g" "root m' = Some g"
      and run: "OptimizeRoot k P m = Some (Return m')"
  shows "\<exists>t k0. bestTreeOf (Suc (rank g)) m' (Some g) = Some t
            \<and> (\<forall>j \<ge> k0. BestRootPlan j br m' = Some (toResult (buildTree br m' t)))"
proof -
  from run rt(1) have r: "optimizeMemoGroup k P m (Some g) = Some (Return m')"
    by (simp add: OptimizeRoot_def)
  from optimizeMemoGroup_bestTree [OF fx ff f wg rk r]
  have a: "bestTreeWithin (Suc (rank g)) m' (Some g)"
    and b: "\<forall>h. reachable m' g h \<longrightarrow> \<not> notDone m' h" by blast+
  from bestTreeOf_exists [of "Suc (rank g)" m'] a b obtain t where
    t: "bestTreeOf (Suc (rank g)) m' (Some g) = Some t" by blast
  with build_tree [of "Suc (rank g)" m' br] obtain k0 where
    "buildBestJoinPlan k0 br m' (Some g) = Some (toResult (buildTree br m' t))" by blast
  then have "\<forall>j \<ge> k0. BestRootPlan j br m' = Some (toResult (buildTree br m' t))"
    by (auto simp: BestRootPlan_def rt(2) intro: build_mono_le)
  with t show ?thesis by blast
qed

text \<open>A memo in which nothing is optimized yet, and the small memo.\<close>

lemma fit_fresh:
  assumes "\<forall>g < length (groups m). (\<exists>f. First (groups m ! g) = Some f \<and> f < length (rels m))
              \<and> Best (groups m ! g) = None \<and> \<not> Done (groups m ! g)"
      and "\<forall>a < length (rels m). \<forall>b. relN (rels m ! a) = Some b \<longrightarrow> b < length (rels m)"
  shows "fitMemo m"
  using assms unfolding fitMemo_def by simp

lemma exRooted_fitMemo: "fitMemo exRooted" "fixesFit exPlanner"
proof -
  have l: "length (groups exRooted) = 3" "length (rels exRooted) = 4"
    by (simp_all add: exRooted_def exJoin_groups exJoin_rels)
  have three: "g < 3 \<longleftrightarrow> g = 0 \<or> g = 1 \<or> g = (2::nat)" for g by auto
  have four: "a < 4 \<longleftrightarrow> a = 0 \<or> a = 1 \<or> a = 2 \<or> a = (3::nat)" for a by auto
  show "fitMemo exRooted"
    by (rule fit_fresh; unfold l three four)
       (auto simp: exRooted_def exJoin_groups exJoin_rels)
  show "fixesFit exPlanner"
    by (simp add: fixesFit_def exPlanner_def keepsDone_refl)
qed

lemma optimizeMemoGroup_bestTree_example:
  "bestTreeWithin 2 exPlanned (Some 2) \<and> (\<forall>h. reachable exPlanned 2 h \<longrightarrow> \<not> notDone exPlanned h)"
proof -
  have run: "optimizeMemoGroup 9 exPlanner exRooted (Some 2) = Some (Return exPlanned)"
    by (simp add: exPlanned_def OptimizeRoot_def exRooted_def exPlanner_def eval_nat_numeral deref_def
        isSourceRel_def setGroup_def SetDistinct_def SetCost_def costAlternative_def updateBest_def
        updateBest_grp_def ExprGroup_updateBest_def IsHash_def NewMemo_def
        Let_def exJoin_groups exJoin_rels exJoin_hints)
  from optimizeMemoGroup_bestTree [OF exRooted_fit(1) exRooted_fitMemo(2) exRooted_fitMemo(1)
      exRooted_fit(2,3) run]
  have a: "bestTreeWithin (Suc (exRank 2)) exPlanned (Some 2)
           \<and> (\<forall>h. reachable exPlanned 2 h \<longrightarrow> \<not> notDone exPlanned h)" .
  have "Suc (exRank 2) = 2" by (simp add: exRank_def)
  with a show ?thesis by (simp del: bestTreeWithin.simps)
qed


section \<open>The rows of the range join test\<close>

text \<open>With both bounds closed, the value-against-interval join of the test tables is the
  list of 15 rows that the test expects.\<close>

lemma test_between_rows:
  "rangeJoin True True test_vals test_ranges = test_between_exp \<and> length test_between_exp = 15"
  by (simp add: rangeJoin_def test_vals_def test_ranges_def test_between_exp_def)


end
